theory Spec2Isabelle
  imports Main "HOL-Library.Word"
begin

section \<open>JavaScript strings\<close>

text \<open>
  A JavaScript string is a sequence of UTF-16 code units, and a regular expression
  without the \<open>u\<close> flag matches code unit by code unit. A string is therefore a list
  of 16-bit words. \<open>js\<close> embeds an ASCII literal.
\<close>

type_synonym jschar = "16 word"
type_synonym jsstring = "jschar list"

definition js :: "string \<Rightarrow> jsstring" where
  "js s = map of_char s"

definition nl :: jschar where
  "nl = 0x0A"

text \<open>
  The class \<open>\s\<close> of a regular expression and the characters removed by
  \<open>String.prototype.trim\<close> are the same set: WhiteSpace and LineTerminator of the
  language definition (tab, line feed, vertical tab, form feed, carriage return, space,
  no-break space, the Unicode space separators, line and paragraph separator, and the
  byte order mark).
\<close>

definition ws :: "jschar \<Rightarrow> bool" where
  "ws c \<longleftrightarrow>
     c = 0x09 \<or> c = 0x0A \<or> c = 0x0B \<or> c = 0x0C \<or> c = 0x0D \<or> c = 0x20 \<or>
     c = 0xA0 \<or> c = 0x1680 \<or>
     c = 0x2000 \<or> c = 0x2001 \<or> c = 0x2002 \<or> c = 0x2003 \<or> c = 0x2004 \<or> c = 0x2005 \<or>
     c = 0x2006 \<or> c = 0x2007 \<or> c = 0x2008 \<or> c = 0x2009 \<or> c = 0x200A \<or>
     c = 0x2028 \<or> c = 0x2029 \<or> c = 0x202F \<or> c = 0x205F \<or> c = 0x3000 \<or> c = 0xFEFF"

definition trim :: "jsstring \<Rightarrow> jsstring" where
  "trim s = rev (dropWhile ws (rev (dropWhile ws s)))"

text \<open>\<open>String.prototype.includes\<close>: the pattern occurs at some position.\<close>

fun includes_js :: "jsstring \<Rightarrow> jsstring \<Rightarrow> bool" where
  "includes_js [] pat = (pat = [])"
| "includes_js (c # cs) pat = (take (length pat) (c # cs) = pat \<or> includes_js cs pat)"

text \<open>\<open>Array.prototype.join\<close> on strings.\<close>

fun join :: "jsstring \<Rightarrow> jsstring list \<Rightarrow> jsstring" where
  "join sep [] = []"
| "join sep [p] = p"
| "join sep (p # q # ps) = p @ sep @ join sep (q # ps)"

section \<open>Regular expressions\<close>

text \<open>
  Every regular expression of the source is a sequence of single-character classes,
  each with a quantifier: exactly once, \<open>?\<close>, greedy \<open>*\<close>, greedy \<open>+\<close> or lazy
  \<open>*?\<close>. A literal is a run of once-quantified singleton classes. The matcher is the
  backtracking matcher of the language definition on this fragment: a greedy
  quantifier first tries one more character and falls back to the rest of the pattern,
  a lazy one first tries the rest of the pattern. It returns, for the first successful
  alternative, the text consumed by each atom and the rest of the input.
\<close>

datatype quant = Once | Optional | GreedyStar | GreedyPlus | LazyStar

datatype atom = Atom "jschar \<Rightarrow> bool" quant

type_synonym regex = "atom list"

fun push :: "jschar \<Rightarrow> jsstring list \<times> jsstring \<Rightarrow> jsstring list \<times> jsstring" where
  "push c ([], t) = ([[c]], t)"
| "push c (g # gs, t) = ((c # g) # gs, t)"

fun skip :: "jsstring list \<times> jsstring \<Rightarrow> jsstring list \<times> jsstring" where
  "skip (gs, t) = ([] # gs, t)"

fun taken :: "jschar \<Rightarrow> jsstring list \<times> jsstring \<Rightarrow> jsstring list \<times> jsstring" where
  "taken c (gs, t) = ([c] # gs, t)"

fun rmatch :: "regex \<Rightarrow> jsstring \<Rightarrow> (jsstring list \<times> jsstring) option" where
  "rmatch [] s = Some ([], s)"
| "rmatch (Atom p Once # r) [] = None"
| "rmatch (Atom p Once # r) (c # cs) =
     (if p c then map_option (taken c) (rmatch r cs) else None)"
| "rmatch (Atom p Optional # r) [] = map_option skip (rmatch r [])"
| "rmatch (Atom p Optional # r) (c # cs) =
     (if p c then
        (case rmatch r cs of
           Some m \<Rightarrow> Some (taken c m)
         | None \<Rightarrow> map_option skip (rmatch r (c # cs)))
      else map_option skip (rmatch r (c # cs)))"
| "rmatch (Atom p GreedyStar # r) [] = map_option skip (rmatch r [])"
| "rmatch (Atom p GreedyStar # r) (c # cs) =
     (if p c then
        (case rmatch (Atom p GreedyStar # r) cs of
           Some m \<Rightarrow> Some (push c m)
         | None \<Rightarrow> map_option skip (rmatch r (c # cs)))
      else map_option skip (rmatch r (c # cs)))"
| "rmatch (Atom p GreedyPlus # r) [] = None"
| "rmatch (Atom p GreedyPlus # r) (c # cs) =
     (if p c then map_option (push c) (rmatch (Atom p GreedyStar # r) cs) else None)"
| "rmatch (Atom p LazyStar # r) [] = map_option skip (rmatch r [])"
| "rmatch (Atom p LazyStar # r) (c # cs) =
     (case rmatch r (c # cs) of
        Some m \<Rightarrow> Some (skip m)
      | None \<Rightarrow>
          (if p c then map_option (push c) (rmatch (Atom p LazyStar # r) cs) else None))"

text \<open>
  \<open>String.prototype.match\<close> with a regular expression without the \<open>g\<close> flag: the
  match at the leftmost position that has one. The result is the text before the match,
  the text of each atom, and the text after the match.
\<close>

fun rsearch :: "regex \<Rightarrow> jsstring \<Rightarrow> (jsstring \<times> jsstring list \<times> jsstring) option" where
  "rsearch r [] = map_option (\<lambda>(gs, t). ([], gs, t)) (rmatch r [])"
| "rsearch r (c # cs) =
     (case rmatch r (c # cs) of
        Some (gs, t) \<Rightarrow> Some ([], gs, t)
      | None \<Rightarrow> map_option (\<lambda>(pre, gs, t). (c # pre, gs, t)) (rsearch r cs))"

text \<open>
  \<open>String.prototype.replace\<close> with a \<open>g\<close> regular expression and a replacement
  string without \<open>$\<close>: the matches are found from left to right, each search
  starting where the previous match ended (one character further after an empty
  match), and every match is replaced.
\<close>

function rreplace :: "regex \<Rightarrow> jsstring \<Rightarrow> jsstring \<Rightarrow> jsstring" where
  "rreplace r rep [] = (case rmatch r [] of Some m \<Rightarrow> rep | None \<Rightarrow> [])"
| "rreplace r rep (c # cs) =
     (case rmatch r (c # cs) of
        None \<Rightarrow> c # rreplace r rep cs
      | Some (gs, t) \<Rightarrow>
          (if length t < length (c # cs) then rep @ rreplace r rep t
           else rep @ c # rreplace r rep cs))"
  by pat_completeness auto
termination
  by (relation "measure (\<lambda>(r, rep, s). length s)") auto

text \<open>
  \<open>String.prototype.matchAll\<close> with a \<open>g\<close> regular expression: the same scan,
  collecting the matches.
\<close>

function rmatchAll :: "regex \<Rightarrow> jsstring \<Rightarrow> jsstring list list" where
  "rmatchAll r [] = (case rmatch r [] of Some (gs, t) \<Rightarrow> [gs] | None \<Rightarrow> [])"
| "rmatchAll r (c # cs) =
     (case rmatch r (c # cs) of
        None \<Rightarrow> rmatchAll r cs
      | Some (gs, t) \<Rightarrow>
          (if length t < length (c # cs) then gs # rmatchAll r t
           else gs # rmatchAll r cs))"
  by pat_completeness auto
termination
  by (relation "measure (\<lambda>(r, s). length s)") auto

subsection \<open>The patterns of the source\<close>

definition lit :: "string \<Rightarrow> regex" where
  "lit s = map (\<lambda>c. Atom (\<lambda>x. x = of_char c) Once) s"

text \<open>
  With the \<open>i\<close> flag and without the \<open>u\<close> flag two code units match when their
  canonical forms (the upper-case mapping, which never maps a code unit above 127 to
  one below 128) agree. For the ASCII pattern characters of the source this is
  equality up to the case of the letters A to Z.
\<close>

definition upper :: "jschar \<Rightarrow> jschar" where
  "upper c = (if 0x61 \<le> c \<and> c \<le> 0x7A then c - 0x20 else c)"

definition liti :: "string \<Rightarrow> regex" where
  "liti s = map (\<lambda>c. Atom (\<lambda>x. upper x = upper (of_char c)) Once) s"

definition any_char :: "jschar \<Rightarrow> bool" where
  "any_char c = True"

definition not_colon :: "jschar \<Rightarrow> bool" where
  "not_colon c \<longleftrightarrow> c \<noteq> 0x3A"

definition not_gt :: "jschar \<Rightarrow> bool" where
  "not_gt c \<longleftrightarrow> c \<noteq> 0x3E"

definition res_char :: "jschar \<Rightarrow> bool" where
  "res_char c \<longleftrightarrow> \<not> (ws c \<or> c = 0x3E \<or> c = 0x3C \<or> c = 0x0A)"

text \<open>\<^verbatim>\<open>/<role>([\s\S]*?)<\/role>/\<close>; the group is atom 6.\<close>

definition role_re :: regex where
  "role_re = lit ''<role>'' @ [Atom any_char LazyStar] @ lit ''</role>''"

text \<open>\<^verbatim>\<open>new RegExp(`<${tagName}>([\\s\\S]*?)<\\/${tagName}>`, 'i')\<close>;
  the group is atom \<open>length tagName + 2\<close>.\<close>

definition section_re :: "string \<Rightarrow> regex" where
  "section_re tagName =
     liti (''<'' @ tagName @ ''>'') @ [Atom any_char LazyStar] @ liti (''</'' @ tagName @ ''>'')"

text \<open>\<^verbatim>\<open>/@!?([^:]+):\/\/([^\s><\n]+)/g\<close> (the source escapes the two angle brackets);
  the groups are atoms 2 and 6.\<close>

definition ref_re :: regex where
  "ref_re = lit ''@'' @ [Atom (\<lambda>x. x = 0x21) Optional, Atom not_colon GreedyPlus] @ lit ''://''
     @ [Atom res_char GreedyPlus]"

text \<open>\<^verbatim>\<open>/<reference[^>]*>/g\<close>\<close>

definition open_tag_re :: regex where
  "open_tag_re = lit ''<reference'' @ [Atom not_gt GreedyStar] @ lit ''>''"

text \<open>\<^verbatim>\<open>/<\/reference>/g\<close>\<close>

definition close_tag_re :: regex where
  "close_tag_re = lit ''</reference>''"

text \<open>\<^verbatim>\<open>/\s*@!?[^:]+:\/\/[^\s><\n]+\s*/g\<close>\<close>

definition token_re :: regex where
  "token_re = [Atom ws GreedyStar] @ lit ''@''
     @ [Atom (\<lambda>x. x = 0x21) Optional, Atom not_colon GreedyPlus] @ lit ''://''
     @ [Atom res_char GreedyPlus, Atom ws GreedyStar]"

text \<open>\<^verbatim>\<open>/\n\s*\n\s*\n/g\<close>\<close>

definition blank_re :: regex where
  "blank_re = [Atom (\<lambda>x. x = nl) Once, Atom ws GreedyStar, Atom (\<lambda>x. x = nl) Once,
     Atom ws GreedyStar, Atom (\<lambda>x. x = nl) Once]"

section \<open>LayerAssembler.cleanContent\<close>

definition strip_tags :: "jsstring \<Rightarrow> jsstring" where
  "strip_tags s = rreplace close_tag_re [] (rreplace open_tag_re [] s)"

definition strip_tokens :: "jsstring \<Rightarrow> jsstring" where
  "strip_tokens s = rreplace token_re [] s"

definition collapse :: "jsstring \<Rightarrow> jsstring" where
  "collapse s = rreplace blank_re [nl, nl] s"

text \<open>
  The argument is a string at every call of the source; the guard \<open>!content\<close> then
  tests for the empty string.
\<close>

definition cleanContent :: "jsstring \<Rightarrow> jsstring" where
  "cleanContent content =
     (if content = [] then []
      else trim (collapse (strip_tokens (strip_tags content))))"

section \<open>RoleLoader: parsing\<close>

text \<open>
  The \<open>sections\<close> object is a list of keys and values in insertion order (which
  \<open>Object.values\<close> follows); a value is \<open>None\<close> for \<open>null\<close>.
\<close>

type_synonym section_map = "(string \<times> jsstring option) list"

definition extractSection :: "jsstring \<Rightarrow> string \<Rightarrow> jsstring option" where
  "extractSection content tagName =
     (case rsearch (section_re tagName) content of
        Some (pre, gs, t) \<Rightarrow> Some (trim (gs ! (length tagName + 2)))
      | None \<Rightarrow> None)"

definition parseDPMLContent :: "jsstring \<Rightarrow> section_map" where
  "parseDPMLContent content =
     (case rsearch role_re content of
        Some (pre, gs, t) \<Rightarrow>
          (let roleContent = gs ! 6 in
           [(''personality'', extractSection roleContent ''personality''),
            (''principle'', extractSection roleContent ''principle''),
            (''knowledge'', extractSection roleContent ''knowledge'')])
      | None \<Rightarrow> [])"

section \<open>Errors and the resource-loading capability\<close>

text \<open>
  An exception is a value: \<open>Error m\<close> is an error object with message \<open>m\<close>, and
  a computation that can throw returns \<open>jserror + 'a\<close> (\<open>Inl\<close> the exception). An
  awaited promise that rejects is the same as a throw.
\<close>

datatype jserror = Error jsstring | TypeError jsstring

fun message :: "jserror \<Rightarrow> jsstring" where
  "message (Error m) = m"
| "message (TypeError m) = m"

text \<open>
  The resource manager of \<^verbatim>\<open>@promptx/core\<close> is not part of the repository. It is
  a parameter: its \<open>initialized\<close> flag, the outcome of
  \<open>initializeWithNewArchitecture()\<close>, and the outcome of \<open>loadResource(url)\<close> for
  every address. A result is \<open>None\<close> for \<open>null\<close> or \<open>undefined\<close>; so are an absent
  \<open>content\<close> and an absent \<open>metadata\<close>.
\<close>

record load_result =
  success :: bool
  content :: "jsstring option"
  metadata :: "(jsstring \<times> jsstring) list option"

record resource_manager =
  initialized :: bool
  initializeWithNewArchitecture :: "jserror + unit"
  loadResource :: "jsstring \<Rightarrow> jserror + load_result option"

section \<open>RoleLoader\<close>

text \<open>The \<open>sections\<close> property of a role may be missing (analyzeDependencies tests for it).\<close>

record role_info =
  role_id :: jsstring
  raw :: jsstring
  sections :: "section_map option"
  role_metadata :: "(jsstring \<times> jsstring) list"

text \<open>The message of the error thrown by loadRole: the role id between two fixed texts.\<close>

definition load_failed_message :: "jsstring \<Rightarrow> jsstring" where
  "load_failed_message roleId =
     [0x65E0, 0x6CD5, 0x52A0, 0x8F7D, 0x89D2, 0x8272] @ js '' '' @ roleId @ js '' '' @ [0x7684, 0x5185, 0x5BB9]"

text \<open>
  loadRole: the \<open>catch\<close> block logs and rethrows the error it caught, so every
  exception of the \<open>try\<close> block leaves the function unchanged.
\<close>

definition loadRole :: "resource_manager \<Rightarrow> jsstring \<Rightarrow> jserror + role_info" where
  "loadRole rm roleId =
     (case (if \<not> initialized rm then initializeWithNewArchitecture rm else Inr ()) of
        Inl e \<Rightarrow> Inl e
      | Inr u \<Rightarrow>
          (case loadResource rm (js ''@role://'' @ roleId) of
             Inl e \<Rightarrow> Inl e
           | Inr None \<Rightarrow> Inl (Error (load_failed_message roleId))
           | Inr (Some result) \<Rightarrow>
               (if \<not> success result then Inl (Error (load_failed_message roleId))
                else
                  (case content result of
                     None \<Rightarrow> Inl (Error (load_failed_message roleId))
                   | Some c \<Rightarrow>
                       (if c = [] then Inl (Error (load_failed_message roleId))
                        else Inr \<lparr>role_id = roleId, raw = c,
                               sections = Some (parseDPMLContent c),
                               role_metadata =
                                 (case metadata result of None \<Rightarrow> [] | Some m \<Rightarrow> m)\<rparr>)))))"

section \<open>DependencyAnalyzer\<close>

record resource_ref =
  protocol :: jsstring
  resource :: jsstring

record dependency =
  dep_id :: jsstring
  dep_content :: jsstring

record dependencies =
  thoughts :: "dependency list"
  executions :: "dependency list"
  knowledges :: "dependency list"

definition no_dependencies :: dependencies where
  "no_dependencies = \<lparr>thoughts = [], executions = [], knowledges = []\<rparr>"

fun extractFromText :: "jsstring option \<Rightarrow> resource_ref list" where
  "extractFromText None = []"
| "extractFromText (Some text) =
     (if text = [] then []
      else map (\<lambda>gs. \<lparr>protocol = gs ! 2, resource = gs ! 6\<rparr>) (rmatchAll ref_re text))"

definition extractResourceReferences :: "section_map \<Rightarrow> resource_ref list" where
  "extractResourceReferences secs = concat (map (\<lambda>(k, section). extractFromText section) secs)"

definition resourceUrl :: "resource_ref \<Rightarrow> jsstring" where
  "resourceUrl ref = js ''@'' @ protocol ref @ js ''://'' @ resource ref"

text \<open>
  loadDependency never throws: an exception of the loader is caught and becomes
  \<open>null\<close>, as does a result that is missing, unsuccessful or without content. The
  call of the loader is recorded: the second argument and second result are the log of
  the addresses requested so far.
\<close>

definition loadDependency ::
  "resource_manager \<Rightarrow> resource_ref \<Rightarrow> jsstring list \<Rightarrow> (jserror + jsstring option) \<times> jsstring list"
where
  "loadDependency rm ref log =
     (case loadResource rm (resourceUrl ref) of
        Inl e \<Rightarrow> (Inr None, log @ [resourceUrl ref])
      | Inr None \<Rightarrow> (Inr None, log @ [resourceUrl ref])
      | Inr (Some result) \<Rightarrow>
          (if success result then
             (case content result of
                None \<Rightarrow> (Inr None, log @ [resourceUrl ref])
              | Some c \<Rightarrow>
                  (if c = [] then (Inr None, log @ [resourceUrl ref])
                   else (Inr (Some c), log @ [resourceUrl ref])))
           else (Inr None, log @ [resourceUrl ref])))"

text \<open>\<^verbatim>\<open>allRefs.map(ref => this.loadDependency(ref))\<close>: the calls start in list order.\<close>

fun loadPromises ::
  "resource_manager \<Rightarrow> resource_ref list \<Rightarrow> jsstring list \<Rightarrow> (jserror + jsstring option) list \<times> jsstring list"
where
  "loadPromises rm [] log = ([], log)"
| "loadPromises rm (ref # refs) log =
     (case loadDependency rm ref log of
        (p, log') \<Rightarrow> (case loadPromises rm refs log' of (ps, log'') \<Rightarrow> (p # ps, log'')))"

text \<open>
  \<open>Promise.allSettled\<close> waits for every promise and returns their outcomes in the
  order of the promises it was given, whatever the order in which they settled.
\<close>

datatype 'a settled = Fulfilled 'a | Rejected jserror

definition allSettled :: "(jserror + 'a) list \<Rightarrow> 'a settled list" where
  "allSettled ps = map (\<lambda>p. case p of Inl e \<Rightarrow> Rejected e | Inr v \<Rightarrow> Fulfilled v) ps"

text \<open>The body of \<open>results.forEach((result, index) => ...)\<close>; a \<open>switch\<close> without default.\<close>

fun classify ::
  "resource_ref list \<Rightarrow> jsstring option settled \<times> nat \<Rightarrow> dependencies \<Rightarrow> dependencies"
where
  "classify allRefs (Fulfilled (Some c), index) deps =
     (if c = [] then deps
      else
        (let ref = allRefs ! index in
         if protocol ref = js ''thought'' then
           deps\<lparr>thoughts := thoughts deps @ [\<lparr>dep_id = resource ref, dep_content = c\<rparr>]\<rparr>
         else if protocol ref = js ''execution'' then
           deps\<lparr>executions := executions deps @ [\<lparr>dep_id = resource ref, dep_content = c\<rparr>]\<rparr>
         else if protocol ref = js ''knowledge'' then
           deps\<lparr>knowledges := knowledges deps @ [\<lparr>dep_id = resource ref, dep_content = c\<rparr>]\<rparr>
         else deps))"
| "classify allRefs (Fulfilled None, index) deps = deps"
| "classify allRefs (Rejected e, index) deps = deps"

text \<open>
  analyzeDependencies returns its result (or the exception that escapes it) and the log
  of the loader calls it made.
\<close>

definition analyzeDependencies ::
  "resource_manager \<Rightarrow> role_info \<Rightarrow> (jserror + dependencies) \<times> jsstring list"
where
  "analyzeDependencies rm roleInfo =
     (case sections roleInfo of
        None \<Rightarrow> (Inr no_dependencies, [])
      | Some secs \<Rightarrow>
          (let allRefs = extractResourceReferences secs in
           case loadPromises rm allRefs [] of
             (promises, log) \<Rightarrow>
               (let results = allSettled promises in
                (Inr (fold (classify allRefs) (zip results [0..<length results]) no_dependencies),
                 log))))"

section \<open>CognitionLoader\<close>

text \<open>
  The modules \<open>os\<close>, \<open>path\<close> and \<open>fs/promises\<close> of the platform are parameters:
  the home directory, \<open>path.join\<close> (which throws on an argument that is not a string)
  and the outcome of \<open>fs.access\<close> for every path.
\<close>

record node_env =
  homedir :: jsstring
  path_join :: "jsstring list \<Rightarrow> jserror + jsstring"
  fs_access :: "jsstring \<Rightarrow> jserror + unit"

record cognition_loader =
  basePath :: jsstring

definition new_CognitionLoader :: "node_env \<Rightarrow> jserror + cognition_loader" where
  "new_CognitionLoader env =
     (case path_join env [homedir env, js ''.promptx'', js ''cognition''] of
        Inl e \<Rightarrow> Inl e
      | Inr p \<Rightarrow> Inr \<lparr>basePath = p\<rparr>)"

record cognition_status =
  hasNetwork :: bool
  networkPath :: "jsstring option"
  error :: "jsstring option"

text \<open>
  checkNetworkExists: the inner \<open>try\<close> holds only the access probe and its \<open>catch\<close>
  takes every exception of it; the outer \<open>catch\<close> takes what is left, an exception of
  \<open>path.join\<close>.
\<close>

definition checkNetworkExists ::
  "node_env \<Rightarrow> cognition_loader \<Rightarrow> jsstring \<Rightarrow> jserror + cognition_status"
where
  "checkNetworkExists env cl roleId =
     (case path_join env [basePath cl, roleId, js ''network.json''] of
        Inl e \<Rightarrow> Inr \<lparr>hasNetwork = False, networkPath = None, error = Some (message e)\<rparr>
      | Inr networkFilePath \<Rightarrow>
          (case fs_access env networkFilePath of
             Inr u \<Rightarrow> Inr \<lparr>hasNetwork = True, networkPath = Some networkFilePath, error = None\<rparr>
           | Inl e \<Rightarrow> Inr \<lparr>hasNetwork = False, networkPath = Some networkFilePath, error = None\<rparr>))"

section \<open>LayerAssembler.assembleContent\<close>

text \<open>
  The function pushes lines onto the array \<open>parts\<close> and joins them with line feeds.
  The model builds the same array, block by block in the order of the pushes. The texts
  are the string literals of the source as UTF-16 code units.
\<close>

definition title_line :: "jsstring \<Rightarrow> jsstring \<Rightarrow> jsstring" where
  "title_line rid mode =
     js ''# '' @ [0xD83E, 0xDDE0] @ js '' [Consciousness Prime] '' @ rid @
     (if mode = js ''subagent'' then [0x4E13, 0x4E1A, 0x52A9, 0x624B]
      else [0x89D2, 0x8272, 0x5DF2, 0x6FC0, 0x6D3B])"

definition cognition_layer :: "jsstring \<Rightarrow> bool \<Rightarrow> jsstring list" where
  "cognition_layer rid has =
     [js ''## '' @ [0xD83D, 0xDCAD] @ js '' PromptX'' @ [0x8BA4, 0x77E5, 0x589E, 0x5F3A]] @
     (if has then
        [[0xD83E, 0xDDE0] @ js '' **'' @ [0x72B6, 0x6001] @ js ''**: '' @ [0x8BE5, 0x89D2, 0x8272, 0x5DF2, 0x5EFA, 0x7ACB, 0x7ECF, 0x9A8C, 0x7F51, 0x7EDC],
         [],
         [0xD83D, 0xDD27] @ js '' **'' @ [0x6FC0, 0x6D3B, 0x65B9, 0x5F0F] @ js ''** ('' @ [0x9700, 0x8981] @ js ''PromptX MCP'' @ [0x670D, 0x52A1, 0x5668] @ js ''):'',
         js ''- `recall '' @ rid @ js ''` - '' @ [0x6FC0, 0x6D3B, 0x8BE5, 0x89D2, 0x8272, 0x7684, 0x5B8C, 0x6574, 0x7ECF, 0x9A8C, 0x7F51, 0x7EDC],
         js ''- `recall '' @ rid @ js '' '' @ [0x0022, 0x5177, 0x4F53, 0x95EE, 0x9898, 0x0022] @ js ''` - '' @ [0x68C0, 0x7D22, 0x76F8, 0x5173, 0x5386, 0x53F2, 0x7ECF, 0x9A8C],
         js ''- `remember '' @ rid @ js '' '' @ [0x0022, 0x65B0, 0x77E5, 0x8BC6, 0x0022] @ js ''` - '' @ [0x5C06, 0x65B0, 0x7ECF, 0x9A8C, 0x52A0, 0x5165, 0x89D2, 0x8272, 0x8BB0, 0x5FC6],
         [],
         [0xD83D, 0xDCA1] @ js '' **'' @ [0x8BF4, 0x660E] @ js ''**: '' @ [0x8BA4, 0x77E5, 0x7F51, 0x7EDC, 0x5305, 0x542B, 0x8BE5, 0x89D2, 0x8272, 0x7684, 0x5386, 0x53F2, 0x4F7F, 0x7528, 0x7ECF, 0x9A8C, 0xFF0C, 0x901A, 0x8FC7] @ js ''recall'' @ [0x5DE5, 0x5177, 0x52A8, 0x6001, 0x6FC0, 0x6D3B]]
      else
        [[0xD83C, 0xDF31] @ js '' **'' @ [0x72B6, 0x6001] @ js ''**: '' @ [0x8BE5, 0x89D2, 0x8272, 0x5C1A, 0x672A, 0x5EFA, 0x7ACB, 0x7ECF, 0x9A8C, 0x7F51, 0x7EDC],
         [],
         [0xD83D, 0xDE80] @ js '' **'' @ [0x5F00, 0x59CB, 0x4F7F, 0x7528] @ js ''**:'',
         js ''- '' @ [0x5B89, 0x88C5, 0x5E76, 0x914D, 0x7F6E] @ js ''PromptX MCP'' @ [0x670D, 0x52A1, 0x5668],
         js ''- '' @ [0x4F7F, 0x7528] @ js '' `recall '' @ rid @ js ''` '' @ [0x5F00, 0x59CB, 0x5EFA, 0x7ACB, 0x8BA4, 0x77E5, 0x7F51, 0x7EDC],
         js ''- '' @ [0x968F, 0x7740, 0x4F7F, 0x7528, 0x9010, 0x6B65, 0x79EF, 0x7D2F, 0x8BE5, 0x89D2, 0x8272, 0x7684, 0x4E13, 0x4E1A, 0x7ECF, 0x9A8C]]) @
     [[]]"

definition heading_personality :: jsstring where
  "heading_personality = js ''## '' @ [0xD83C, 0xDFAD] @ js '' '' @ [0x89D2, 0x8272, 0x4EBA, 0x683C]"

definition heading_principle :: jsstring where
  "heading_principle = js ''## '' @ [0xD83D, 0xDD27] @ js '' '' @ [0x5DE5, 0x4F5C, 0x539F, 0x5219]"

definition heading_knowledge :: jsstring where
  "heading_knowledge = js ''## '' @ [0xD83D, 0xDCDA] @ js '' '' @ [0x4E13, 0x4E1A, 0x77E5, 0x8BC6]"

definition heading_thoughts :: jsstring where
  "heading_thoughts = js ''## '' @ [0xD83D, 0xDCA1] @ js '' '' @ [0x601D, 0x7EF4, 0x6A21, 0x5F0F]"

definition heading_executions :: jsstring where
  "heading_executions = js ''## '' @ [0x26A1] @ js '' '' @ [0x6267, 0x884C, 0x6280, 0x80FD]"

text \<open>
  \<^verbatim>\<open>if (roleInfo.sections.personality) { ... }\<close>: the block is pushed when the value
  is a string that is not empty.
\<close>

definition role_section :: "jsstring \<Rightarrow> section_map \<Rightarrow> string \<Rightarrow> jsstring list" where
  "role_section heading secs key =
     (case map_of secs key of
        Some (Some text) \<Rightarrow> (if text = [] then [] else [heading, cleanContent text, []])
      | Some None \<Rightarrow> []
      | None \<Rightarrow> [])"

definition role_layer :: "section_map \<Rightarrow> jsstring list" where
  "role_layer secs =
     role_section heading_personality secs ''personality'' @
     role_section heading_principle secs ''principle'' @
     role_section heading_knowledge secs ''knowledge''"

definition dependency_block :: "jsstring \<Rightarrow> dependency list \<Rightarrow> jsstring list" where
  "dependency_block heading deps =
     (if length deps > 0 then
        [heading] @ concat (map (\<lambda>d. [js ''### '' @ dep_id d, cleanContent (dep_content d), []]) deps)
      else [])"

definition state_layer :: "jsstring \<Rightarrow> jsstring \<Rightarrow> jsstring list" where
  "state_layer rid mode =
     [js ''---'', []] @
     (if mode = js ''command'' then
        [[0xD83C, 0xDF89] @ js '' '' @ rid @ [0x89D2, 0x8272, 0x6FC0, 0x6D3B, 0x5B8C, 0x6210, 0xFF01, 0x6211, 0x73B0, 0x5728, 0x4EE5, 0x8BE5, 0x89D2, 0x8272, 0x8EAB, 0x4EFD, 0x4E3A, 0x4F60, 0x670D, 0x52A1, 0x3002]]
      else
        [js ''## '' @ [0xD83E, 0xDD16] @ js '' '' @ [0x52A9, 0x624B, 0x8BF4, 0x660E],
         [0x6211, 0x662F, 0x57FA, 0x4E8E] @ js ''PromptX '' @ rid @ [0x89D2, 0x8272, 0x7684, 0x4E13, 0x4E1A] @ js ''AI'' @ [0x52A9, 0x624B, 0x3002, 0x6211, 0x4F1A, 0xFF1A],
         js ''- '' @ [0x59CB, 0x7EC8, 0x4FDD, 0x6301] @ rid @ [0x7684, 0x4E13, 0x4E1A, 0x8EAB, 0x4EFD, 0x548C, 0x601D, 0x7EF4, 0x6A21, 0x5F0F],
         js ''- '' @ [0x5229, 0x7528, 0x5B8C, 0x6574, 0x7684] @ js ''PromptX'' @ [0x5DE5, 0x5177, 0x751F, 0x6001, 0x63D0, 0x4F9B, 0x4E13, 0x4E1A, 0x670D, 0x52A1],
         js ''- '' @ [0x5728, 0x6211, 0x4EEC, 0x7684, 0x5BF9, 0x8BDD, 0x8FC7, 0x7A0B, 0x4E2D, 0x6301, 0x7EED, 0x5B66, 0x4E60, 0x548C, 0x8BB0, 0x5FC6],
         [],
         [0x8BF7, 0x544A, 0x8BC9, 0x6211, 0x4F60, 0x9700, 0x8981, 0x4EC0, 0x4E48, 0x5E2E, 0x52A9, 0xFF1F]])"

definition tools_block :: "jsstring \<Rightarrow> jsstring \<Rightarrow> jsstring list" where
  "tools_block rid mode =
     [[], js ''---'', [],
      [0xD83D, 0xDCA1] @ js '' **'' @ [0x53EF, 0x7528, 0x7684] @ js ''PromptX'' @ [0x5DE5, 0x5177, 0x751F, 0x6001] @ js ''**'' @ [0xFF1A],
      js ''- `recall '' @ rid @ js ''` - '' @ [0x6FC0, 0x6D3B, 0x8BE5, 0x89D2, 0x8272, 0x7684, 0x5386, 0x53F2, 0x7ECF, 0x9A8C, 0x7F51, 0x7EDC],
      js ''- `remember '' @ rid @ js '' '' @ [0x0022, 0x65B0, 0x4F53, 0x9A8C, 0x0022] @ js ''` - '' @ [0x5C06, 0x65B0, 0x4F53, 0x9A8C, 0x7F16, 0x7EC7, 0x5230, 0x89D2, 0x8272, 0x8BB0, 0x5FC6],
      js ''- `learn` - '' @ [0x5B66, 0x4E60, 0x65B0, 0x7684, 0x8D44, 0x6E90, 0x548C, 0x77E5, 0x8BC6],
      js ''- `toolx` - '' @ [0x6267, 0x884C, 0x4E13, 0x4E1A, 0x5DE5, 0x5177],
      js ''- '' @ [0x5177, 0x4F53, 0x5DE5, 0x5177, 0x53EF, 0x7528, 0x6027, 0x53D6, 0x51B3, 0x4E8E] @ js ''PromptX MCP'' @ [0x670D, 0x52A1, 0x5668, 0x914D, 0x7F6E],
      []] @
     (if mode = js ''command'' then [[0x73B0, 0x5728, 0x5F00, 0x59CB, 0x5904, 0x7406, 0x7528, 0x6237, 0x9700, 0x6C42, 0x3002]] else [])"

text \<open>
  The array \<open>parts\<close> when the function joins it, for a role with sections \<open>secs\<close>.
  The \<open>knowledges\<close> of the dependencies are not read.
\<close>

definition assemble_parts ::
  "jsstring \<Rightarrow> section_map \<Rightarrow> dependencies \<Rightarrow> cognition_status \<Rightarrow> jsstring \<Rightarrow> jsstring list"
where
  "assemble_parts rid secs deps cognitionData mode =
     [title_line rid mode, []] @
     cognition_layer rid (hasNetwork cognitionData) @
     role_layer secs @
     dependency_block heading_thoughts (thoughts deps) @
     dependency_block heading_executions (executions deps) @
     state_layer rid mode @
     tools_block rid mode"

text \<open>
  Reading \<open>roleInfo.sections.personality\<close> throws a TypeError when the role has no
  \<open>sections\<close>; nothing else in the function can throw.
\<close>

definition assembleContent ::
  "role_info \<Rightarrow> dependencies \<Rightarrow> cognition_status \<Rightarrow> jsstring \<Rightarrow> jserror + jsstring"
where
  "assembleContent roleInfo deps cognitionData mode =
     (case sections roleInfo of
        None \<Rightarrow> Inl (TypeError (js ''Cannot read properties of undefined (reading '' @ [0x0027] @ js ''personality'' @ [0x0027] @ js '')''))
      | Some secs \<Rightarrow>
          Inr (join [nl] (assemble_parts (role_id roleInfo) secs deps cognitionData mode)))"

section \<open>PromptXActionProcessor.processRole\<close>

record processor =
  resourceManager :: resource_manager
  cognitionLoader :: cognition_loader

text \<open>
  The four stages in sequence; the \<open>catch\<close> block logs and rethrows, so an exception
  of any stage leaves processRole unchanged.
\<close>

definition processRole :: "node_env \<Rightarrow> processor \<Rightarrow> jsstring \<Rightarrow> jsstring \<Rightarrow> jserror + jsstring" where
  "processRole env proc roleId mode =
     (case loadRole (resourceManager proc) roleId of
        Inl e \<Rightarrow> Inl e
      | Inr roleInfo \<Rightarrow>
          (case analyzeDependencies (resourceManager proc) roleInfo of
             (Inl e, log) \<Rightarrow> Inl e
           | (Inr deps, log) \<Rightarrow>
               (case checkNetworkExists env (cognitionLoader proc) roleId of
                  Inl e \<Rightarrow> Inl e
                | Inr cognitionData \<Rightarrow> assembleContent roleInfo deps cognitionData mode)))"

section \<open>Notions used to state the properties\<close>

text \<open>
  A reference resolves when the loader returns a successful result with content that is
  not empty; it fails when the loader throws, returns nothing, reports no success or
  has no content. \<open>resolves\<close> is the content of a reference that resolves.
\<close>

definition resolves :: "resource_manager \<Rightarrow> resource_ref \<Rightarrow> jsstring option" where
  "resolves rm ref =
     (case loadResource rm (resourceUrl ref) of
        Inl e \<Rightarrow> None
      | Inr None \<Rightarrow> None
      | Inr (Some result) \<Rightarrow>
          (if success result then
             (case content result of None \<Rightarrow> None | Some c \<Rightarrow> if c = [] then None else Some c)
           else None))"

text \<open>
  The entries of the references of one protocol that resolve, in the order of the
  references; and the bundle of the three recognised protocols.
\<close>

definition bucket :: "resource_manager \<Rightarrow> jsstring \<Rightarrow> resource_ref list \<Rightarrow> dependency list" where
  "bucket rm p refs =
     List.map_filter (\<lambda>r. if protocol r = p
        then map_option (\<lambda>c. \<lparr>dep_id = resource r, dep_content = c\<rparr>) (resolves rm r)
        else None) refs"

definition bundle_of :: "resource_manager \<Rightarrow> resource_ref list \<Rightarrow> dependencies" where
  "bundle_of rm refs = \<lparr>thoughts = bucket rm (js ''thought'') refs,
     executions = bucket rm (js ''execution'') refs,
     knowledges = bucket rm (js ''knowledge'') refs\<rparr>"

definition recognised :: "jsstring \<Rightarrow> bool" where
  "recognised p \<longleftrightarrow> p = js ''thought'' \<or> p = js ''execution'' \<or> p = js ''knowledge''"

text \<open>The effect of one reference on the bundle, by the reference itself.\<close>

definition step_ref :: "resource_manager \<Rightarrow> resource_ref \<Rightarrow> dependencies \<Rightarrow> dependencies" where
  "step_ref rm r d =
    (case resolves rm r of
       None \<Rightarrow> d
     | Some c \<Rightarrow>
         if protocol r = js ''thought'' then
           d\<lparr>thoughts := thoughts d @ [\<lparr>dep_id = resource r, dep_content = c\<rparr>]\<rparr>
         else if protocol r = js ''execution'' then
           d\<lparr>executions := executions d @ [\<lparr>dep_id = resource r, dep_content = c\<rparr>]\<rparr>
         else if protocol r = js ''knowledge'' then
           d\<lparr>knowledges := knowledges d @ [\<lparr>dep_id = resource r, dep_content = c\<rparr>]\<rparr>
         else d)"

text \<open>
  The first occurrence of a pattern in a string, as \<open>indexOf\<close> finds it: the text
  before it and the text after it. \<open>first_pair p q\<close> is the first \<open>p\<close> and the
  first \<open>q\<close> after it: the text before, between and after them.
\<close>

fun find_first :: "jsstring \<Rightarrow> jsstring \<Rightarrow> (jsstring \<times> jsstring) option" where
  "find_first pat [] = (if pat = [] then Some ([], []) else None)"
| "find_first pat (c # cs) =
     (if take (length pat) (c # cs) = pat then Some ([], drop (length pat) (c # cs))
      else map_option (\<lambda>(a, b). (c # a, b)) (find_first pat cs))"

definition first_pair ::
  "jsstring \<Rightarrow> jsstring \<Rightarrow> jsstring \<Rightarrow> (jsstring \<times> jsstring \<times> jsstring) option"
where
  "first_pair p q s =
     (case find_first p s of
        None \<Rightarrow> None
      | Some (pre, rest) \<Rightarrow>
          (case find_first q rest of
             None \<Rightarrow> None
           | Some (inner, post) \<Rightarrow> Some (pre, inner, post)))"

text \<open>
  The span that C4 names, in its words: from the first opening delimiter to the last
  closing delimiter. \<open>find_last\<close> is the last occurrence of a pattern, as
  \<open>lastIndexOf\<close> finds it.
\<close>

fun find_last :: "jsstring \<Rightarrow> jsstring \<Rightarrow> (jsstring \<times> jsstring) option" where
  "find_last pat [] = (if pat = [] then Some ([], []) else None)"
| "find_last pat (c # cs) =
     (case find_last pat cs of
        Some (a, b) \<Rightarrow> Some (c # a, b)
      | None \<Rightarrow>
          (if take (length pat) (c # cs) = pat then Some ([], drop (length pat) (c # cs))
           else None))"

definition outermost_role_span :: "jsstring \<Rightarrow> jsstring option" where
  "outermost_role_span s =
     (case find_first (js ''<role>'') s of
        None \<Rightarrow> None
      | Some (pre, rest) \<Rightarrow>
          (case find_last (js ''</role>'') rest of
             None \<Rightarrow> None
           | Some (inner, post) \<Rightarrow> Some inner))"

text \<open>The text of each atom of a literal: one character each.\<close>

definition singles :: "jsstring \<Rightarrow> jsstring list" where
  "singles s = map (\<lambda>c. [c]) s"

text \<open>
  An atom that takes at least one character; a pattern with such an atom has no empty
  match.
\<close>

fun consumes :: "atom \<Rightarrow> bool" where
  "consumes (Atom p Once) = True"
| "consumes (Atom p GreedyPlus) = True"
| "consumes (Atom p Optional) = False"
| "consumes (Atom p GreedyStar) = False"
| "consumes (Atom p LazyStar) = False"

text \<open>The number of line feeds in the run of white space at the start of a string.\<close>

fun nlcount :: "jsstring \<Rightarrow> nat" where
  "nlcount [] = 0"
| "nlcount (c # cs) = (if ws c then (if c = nl then Suc (nlcount cs) else nlcount cs) else 0)"

text \<open>
  The number of occurrences of a reference in the scanned sections, counted on the text
  itself: the matches of the reference pattern \<^verbatim>\<open>/@!?([^:]+):\/\/([^\s><\n]+)/g\<close> in
  each section's text whose two groups are the protocol and the resource.
\<close>

definition occurrences :: "section_map \<Rightarrow> resource_ref \<Rightarrow> nat" where
  "occurrences secs r =
     sum_list (map (\<lambda>(k, section).
        case section of
          None \<Rightarrow> 0
        | Some text \<Rightarrow>
            length (filter (\<lambda>gs. gs ! 2 = protocol r \<and> gs ! 6 = resource r)
              (rmatchAll ref_re text))) secs)"

text \<open>
  A reference whose token reads back as itself: a protocol without a colon that does
  not start with \<open>!\<close>, and a resource of characters that the pattern's last class takes.
\<close>

definition plain_ref :: "resource_ref \<Rightarrow> bool" where
  "plain_ref r \<longleftrightarrow>
     protocol r \<noteq> [] \<and> list_all not_colon (protocol r) \<and> hd (protocol r) \<noteq> 0x21 \<and>
     resource r \<noteq> [] \<and> list_all res_char (resource r)"

text \<open>
  A text that holds one token of the reference, with or without \<open>!\<close>, for each item,
  each followed by the item's filler; the fillers hold no \<open>@\<close> and start with a character
  that ends the token (only the last one may be empty).
\<close>

fun occurrence_text :: "resource_ref \<Rightarrow> (bool \<times> jsstring) list \<Rightarrow> jsstring" where
  "occurrence_text r [] = []"
| "occurrence_text r ((bang, filler) # items) =
     js ''@'' @ (if bang then [0x21] else []) @ protocol r @ js ''://'' @ resource r @ filler
     @ occurrence_text r items"

fun fillers_ok :: "(bool \<times> jsstring) list \<Rightarrow> bool" where
  "fillers_ok [] = True"
| "fillers_ok ((bang, filler) # items) =
     (0x40 \<notin> set filler \<and> (if filler = [] then items = [] else \<not> res_char (hd filler)) \<and>
      fillers_ok items)"







subsection \<open>Concrete inputs\<close>

text \<open>
  A resource manager that knows an execution, a thought, a tool and a role that fails to
  load, and throws for every other address; and a role with one section.
\<close>

definition demo_manager :: resource_manager where
  "demo_manager =
     \<lparr>initialized = True,
      initializeWithNewArchitecture = Inr (),
      loadResource = (\<lambda>url.
        if url = js ''@execution://summarize'' then
          Inr (Some \<lparr>success = True, content = Some (js ''Summarize input.''), metadata = None\<rparr>)
        else if url = js ''@thought://a'' then
          Inr (Some \<lparr>success = True, content = Some (js ''Think.''), metadata = None\<rparr>)
        else if url = js ''@tool://x'' then
          Inr (Some \<lparr>success = True, content = Some (js ''c''), metadata = None\<rparr>)
        else if url = js ''@role://ghost'' then
          Inr (Some \<lparr>success = False, content = None, metadata = None\<rparr>)
        else Inl (Error (js ''not found'')))\<rparr>"

definition demo_role :: "jsstring \<Rightarrow> role_info" where
  "demo_role text =
     \<lparr>role_id = js ''writer'', raw = [], sections = Some [(''personality'', Some text)],
      role_metadata = []\<rparr>"

text \<open>
  A platform whose \<open>path.join\<close> joins with a slash and never throws, with a given
  outcome of the access probe; a cognition loader under \<^verbatim>\<open>/home/u\<close>; and the
  role \<open>writer\<close> with a personality, a principle that holds a reference, and no
  knowledge.
\<close>

definition demo_env :: "(jsstring \<Rightarrow> jserror + unit) \<Rightarrow> node_env" where
  "demo_env access =
     \<lparr>homedir = js ''/home/u'', path_join = (\<lambda>ps. Inr (join (js ''/'') ps)),
      fs_access = access\<rparr>"

definition demo_loader :: cognition_loader where
  "demo_loader = \<lparr>basePath = js ''/home/u/.promptx/cognition''\<rparr>"

definition writer_role :: role_info where
  "writer_role =
     \<lparr>role_id = js ''writer'', raw = [],
      sections = Some [(''personality'', Some (js ''Calm.'')),
                       (''principle'', Some (js ''Be concise. @!execution://summarize'')),
                       (''knowledge'', None)],
      role_metadata = []\<rparr>"


section \<open>Evaluation\<close>

lemmas re_defs = role_re_def section_re_def ref_re_def open_tag_re_def close_tag_re_def
  token_re_def blank_re_def lit_def liti_def

lemmas cls_defs = any_char_def not_colon_def not_gt_def res_char_def ws_def nl_def upper_def

text \<open>The texts of the atoms and the rest make up the input.\<close>

lemma rmatch_parts: "rmatch r s = Some (gs, t) \<Longrightarrow> concat gs @ t = s"
proof (induction r s arbitrary: gs t rule: rmatch.induct)
  case (7 p r c cs)
  then show ?case
    by (auto split: if_splits option.splits list.splits elim!: push.elims)
next
  case (9 p r c cs)
  then show ?case
    by (auto split: if_splits option.splits list.splits elim!: push.elims)
next
  case (11 p r c cs)
  then show ?case
    by (auto split: if_splits option.splits list.splits elim!: push.elims)
qed (auto split: if_splits option.splits)

lemma js_protocols_distinct:
  "js ''thought'' \<noteq> js ''execution''" "js ''thought'' \<noteq> js ''knowledge''"
  "js ''execution'' \<noteq> js ''knowledge''"
  by (simp_all add: js_def)

lemma demo_refs_tool:
  "extractResourceReferences [(''personality'', Some (js ''@tool://x''))]
     = [\<lparr>protocol = js ''tool'', resource = js ''x''\<rparr>]"
  by (simp add: extractResourceReferences_def js_def re_defs cls_defs)

lemma demo_refs_mixed:
  "extractResourceReferences
     [(''personality'', Some (js ''@thought://a @thought://missing @tool://x''))]
     = [\<lparr>protocol = js ''thought'', resource = js ''a''\<rparr>,
        \<lparr>protocol = js ''thought'', resource = js ''missing''\<rparr>,
        \<lparr>protocol = js ''tool'', resource = js ''x''\<rparr>]"
  by (simp add: extractResourceReferences_def js_def re_defs cls_defs)

lemma demo_refs_twice:
  "extractResourceReferences [(''personality'', Some (js ''@!thought://a and @thought://a''))]
     = [\<lparr>protocol = js ''thought'', resource = js ''a''\<rparr>,
        \<lparr>protocol = js ''thought'', resource = js ''a''\<rparr>]"
  by (simp add: extractResourceReferences_def js_def re_defs cls_defs)

lemma demo_resolves:
  "resolves demo_manager \<lparr>protocol = js ''thought'', resource = js ''a''\<rparr> = Some (js ''Think.'')"
  "resolves demo_manager \<lparr>protocol = js ''thought'', resource = js ''missing''\<rparr> = None"
  "resolves demo_manager \<lparr>protocol = js ''tool'', resource = js ''x''\<rparr> = Some (js ''c'')"
  by (simp_all add: resolves_def demo_manager_def resourceUrl_def js_def)

section \<open>DependencyAnalyzer: the bundle\<close>

lemma loadDependency_resolves:
  "loadDependency rm ref log = (Inr (resolves rm ref), log @ [resourceUrl ref])"
  by (simp add: loadDependency_def resolves_def split: sum.splits option.splits)

lemma loadPromises_resolves:
  "loadPromises rm refs log = (map (\<lambda>r. Inr (resolves rm r)) refs, log @ map resourceUrl refs)"
  by (induction refs arbitrary: log) (simp_all add: loadDependency_resolves)

lemma resolves_nonempty: "resolves rm r \<noteq> Some []"
  by (simp add: resolves_def split: sum.splits option.splits)

text \<open>
  The loop over the results looks each reference up by its index; it does to the bundle
  what a loop over the references themselves does.
\<close>

lemma classify_fold_index:
  "k + length rs = length allRefs \<Longrightarrow> drop k allRefs = rs \<Longrightarrow>
   fold (classify allRefs)
     (zip (allSettled (map (\<lambda>r. Inr (resolves rm r)) rs)) [k..<k + length rs]) d
   = fold (step_ref rm) rs d"
proof (induction rs arbitrary: k d)
  case Nil
  then show ?case by (simp add: allSettled_def)
next
  case (Cons r rs)
  have r: "allRefs ! k = r" using Cons.prems
    by (metis Cons_nth_drop_Suc add_lessD1 le_add1 length_Cons lessI list.inject nth_via_drop
        order_le_less_trans)
  have d: "drop (Suc k) allRefs = rs" using Cons.prems
    by (metis drop_Suc list.sel(3) tl_drop)
  have up: "[k..<k + length (r # rs)] = k # [Suc k..<Suc k + length rs]"
    using upt_conv_Cons[of k "k + length (r # rs)"] by simp
  have st: "classify allRefs (Fulfilled (resolves rm r), k) d = step_ref rm r d"
    using r resolves_nonempty[of rm r]
    by (cases "resolves rm r") (simp_all add: step_ref_def Let_def)
  have "fold (classify allRefs)
      (zip (allSettled (map (\<lambda>r. Inr (resolves rm r)) rs)) [Suc k..<Suc k + length rs])
      (step_ref rm r d)
    = fold (step_ref rm) rs (step_ref rm r d)"
    using Cons.IH[of "Suc k" "step_ref rm r d"] Cons.prems d by simp
  then show ?case
    unfolding up by (simp add: allSettled_def st)
qed

lemma fold_step_ref:
  "fold (step_ref rm) rs d = \<lparr>thoughts = thoughts d @ bucket rm (js ''thought'') rs,
     executions = executions d @ bucket rm (js ''execution'') rs,
     knowledges = knowledges d @ bucket rm (js ''knowledge'') rs\<rparr>"
proof (induction rs arbitrary: d)
  case Nil
  then show ?case by (simp add: bucket_def List.map_filter_simps)
next
  case (Cons r rs)
  show ?case
    unfolding fold_simps Cons.IH
    using js_protocols_distinct
    by (cases "resolves rm r") (auto simp add: step_ref_def bucket_def List.map_filter_simps)
qed

lemma analyzeDependencies_bundle:
  "sections roleInfo = Some secs \<Longrightarrow>
   analyzeDependencies rm roleInfo =
     (Inr (bundle_of rm (extractResourceReferences secs)),
      map resourceUrl (extractResourceReferences secs))"
  using classify_fold_index[of 0 "extractResourceReferences secs"
      "extractResourceReferences secs" rm no_dependencies]
  by (simp add: analyzeDependencies_def loadPromises_resolves Let_def fold_step_ref bundle_of_def
      no_dependencies_def allSettled_def)

lemma length_bucket:
  "length (bucket rm p refs) = length (filter (\<lambda>r. protocol r = p \<and> resolves rm r \<noteq> None) refs)"
  by (induction refs) (auto simp add: bucket_def List.map_filter_simps split: option.splits)

lemma bundle_count:
  "length (bucket rm (js ''thought'') refs) + length (bucket rm (js ''execution'') refs)
     + length (bucket rm (js ''knowledge'') refs)
     + length (filter (\<lambda>r. resolves rm r = None) refs)
     + length (filter (\<lambda>r. resolves rm r \<noteq> None \<and> \<not> recognised (protocol r)) refs)
   = length refs"
  unfolding length_bucket using js_protocols_distinct
  by (induction refs) (auto simp add: recognised_def)

text \<open>
  C2, as stated, fails: the role whose only section is \<^verbatim>\<open>@tool://x\<close> yields one
  reference (N = 1), which resolves (M = 0), and the bundle has no entry.
\<close>

theorem analyzeDependencies_count_counterexample:
  "extractResourceReferences [(''personality'', Some (js ''@tool://x''))]
     = [\<lparr>protocol = js ''tool'', resource = js ''x''\<rparr>] \<and>
   resolves demo_manager \<lparr>protocol = js ''tool'', resource = js ''x''\<rparr> = Some (js ''c'') \<and>
   fst (analyzeDependencies demo_manager (demo_role (js ''@tool://x'')))
     = Inr \<lparr>thoughts = [], executions = [], knowledges = []\<rparr>"
proof -
  have h: "sections (demo_role (js ''@tool://x'')) = Some [(''personality'', Some (js ''@tool://x''))]"
    by (simp add: demo_role_def)
  have "tl (js ''tool'') \<noteq> tl (js ''thought'')" "js ''tool'' \<noteq> js ''execution''"
    "js ''tool'' \<noteq> js ''knowledge''"
    by (simp_all add: js_def)
  then have "bundle_of demo_manager [\<lparr>protocol = js ''tool'', resource = js ''x''\<rparr>]
      = \<lparr>thoughts = [], executions = [], knowledges = []\<rparr>"
    by (auto simp add: bundle_of_def bucket_def List.map_filter_simps)
  then show ?thesis
    using analyzeDependencies_bundle[OF h, of demo_manager]
    by (simp add: demo_refs_tool demo_resolves)
qed

text \<open>
  C2, amended: for every role whose sections yield N references of which M fail to
  resolve, analyzeDependencies returns, without an exception, the bundle of exactly
  those successful resolutions whose protocol is thought, execution or knowledge,
  partitioned by protocol, each bucket in the order of the references; the entries of
  the bundle, the M failures and the successful resolutions of any other protocol
  together are the N references.
\<close>

theorem analyzeDependencies_successes_recognised:
  assumes "sections roleInfo = Some secs"
  shows "fst (analyzeDependencies rm roleInfo) = Inr (bundle_of rm (extractResourceReferences secs)) \<and>
    length (thoughts (bundle_of rm (extractResourceReferences secs)))
      + length (executions (bundle_of rm (extractResourceReferences secs)))
      + length (knowledges (bundle_of rm (extractResourceReferences secs)))
      + length (filter (\<lambda>r. resolves rm r = None) (extractResourceReferences secs))
      + length (filter (\<lambda>r. resolves rm r \<noteq> None \<and> \<not> recognised (protocol r))
          (extractResourceReferences secs))
    = length (extractResourceReferences secs)"
  using assms bundle_count[of rm "extractResourceReferences secs"]
  by (simp add: analyzeDependencies_bundle bundle_of_def)

text \<open>
  C2, an instance: of the three references of
  \<^verbatim>\<open>@thought://a @thought://missing @tool://x\<close> the second fails and the third has
  another protocol; the bundle is the one entry of the first.
\<close>

theorem analyzeDependencies_successes_recognised_witness:
  "sections (demo_role (js ''@thought://a @thought://missing @tool://x''))
     = Some [(''personality'', Some (js ''@thought://a @thought://missing @tool://x''))] \<and>
   fst (analyzeDependencies demo_manager (demo_role (js ''@thought://a @thought://missing @tool://x'')))
     = Inr \<lparr>thoughts = [\<lparr>dep_id = js ''a'', dep_content = js ''Think.''\<rparr>],
            executions = [], knowledges = []\<rparr>"
proof -
  have h: "sections (demo_role (js ''@thought://a @thought://missing @tool://x''))
     = Some [(''personality'', Some (js ''@thought://a @thought://missing @tool://x''))]"
    by (simp add: demo_role_def)
  have "tl (js ''tool'') \<noteq> tl (js ''thought'')" "js ''tool'' \<noteq> js ''execution''"
    "js ''tool'' \<noteq> js ''knowledge''"
    by (simp_all add: js_def)
  then have "bundle_of demo_manager
      [\<lparr>protocol = js ''thought'', resource = js ''a''\<rparr>,
       \<lparr>protocol = js ''thought'', resource = js ''missing''\<rparr>,
       \<lparr>protocol = js ''tool'', resource = js ''x''\<rparr>]
    = \<lparr>thoughts = [\<lparr>dep_id = js ''a'', dep_content = js ''Think.''\<rparr>],
       executions = [], knowledges = []\<rparr>"
    using js_protocols_distinct
    by (auto simp add: bundle_of_def bucket_def List.map_filter_simps demo_resolves)
  then show ?thesis
    using h analyzeDependencies_successes_recognised[OF h, of demo_manager]
    by (simp add: demo_refs_mixed)
qed

lemma bucket_filter_recognised:
  "recognised p \<Longrightarrow> bucket rm p (filter (\<lambda>r. recognised (protocol r)) refs) = bucket rm p refs"
  by (induction refs) (auto simp add: bucket_def List.map_filter_simps split: option.splits)

text \<open>
  C7: every extracted reference is requested from the loader, those of another protocol
  than thought, execution and knowledge too; and the bundle is the bundle of the
  references of these three protocols alone, so a reference of another protocol has no
  entry in any bucket, resolved or not.
\<close>

theorem analyzeDependencies_unrecognised_excluded:
  assumes "sections roleInfo = Some secs"
  shows "fst (analyzeDependencies rm roleInfo)
      = Inr (bundle_of rm (filter (\<lambda>r. recognised (protocol r)) (extractResourceReferences secs))) \<and>
    (\<forall>r \<in> set (extractResourceReferences secs).
       resourceUrl r \<in> set (snd (analyzeDependencies rm roleInfo)))"
proof -
  have "recognised (js ''thought'')" "recognised (js ''execution'')" "recognised (js ''knowledge'')"
    by (simp_all add: recognised_def)
  then show ?thesis using assms
    by (simp add: analyzeDependencies_bundle bundle_of_def bucket_filter_recognised)
qed

text \<open>
  C7, an instance: \<^verbatim>\<open>@tool://x\<close> is requested from the loader, which returns content
  for it, and the three buckets are empty.
\<close>

theorem analyzeDependencies_unrecognised_excluded_witness:
  "sections (demo_role (js ''@tool://x'')) = Some [(''personality'', Some (js ''@tool://x''))] \<and>
   resolves demo_manager \<lparr>protocol = js ''tool'', resource = js ''x''\<rparr> = Some (js ''c'') \<and>
   analyzeDependencies demo_manager (demo_role (js ''@tool://x''))
     = (Inr \<lparr>thoughts = [], executions = [], knowledges = []\<rparr>, [js ''@tool://x''])"
proof -
  have h: "sections (demo_role (js ''@tool://x'')) = Some [(''personality'', Some (js ''@tool://x''))]"
    by (simp add: demo_role_def)
  have n: "\<not> recognised (js ''tool'')"
    by (simp add: recognised_def js_def)
  have b: "fst (analyzeDependencies demo_manager (demo_role (js ''@tool://x'')))
      = Inr (bundle_of demo_manager [])"
    using analyzeDependencies_unrecognised_excluded[OF h, of demo_manager] n
    by (simp add: demo_refs_tool)
  have l: "snd (analyzeDependencies demo_manager (demo_role (js ''@tool://x''))) = [js ''@tool://x'']"
    using analyzeDependencies_bundle[OF h, of demo_manager, unfolded demo_refs_tool]
    by (simp add: resourceUrl_def js_def)
  show ?thesis
    using h b l
    by (simp add: prod_eq_iff bundle_of_def bucket_def List.map_filter_simps demo_resolves)
qed

lemma count_bucket:
  "resolves rm r = Some c \<Longrightarrow> protocol r = p \<Longrightarrow>
   count_list (bucket rm p refs) \<lparr>dep_id = resource r, dep_content = c\<rparr> = count_list refs r"
proof (induction refs)
  case Nil
  then show ?case by (simp add: bucket_def List.map_filter_simps)
next
  case (Cons a refs)
  then have IH: "count_list (bucket rm p refs) \<lparr>dep_id = resource r, dep_content = c\<rparr>
      = count_list refs r"
    by simp
  have b: "bucket rm p (a # refs) =
    (if protocol a = p then
       (case resolves rm a of
          None \<Rightarrow> bucket rm p refs
        | Some c' \<Rightarrow> \<lparr>dep_id = resource a, dep_content = c'\<rparr> # bucket rm p refs)
     else bucket rm p refs)"
    by (simp add: bucket_def List.map_filter_simps split: option.splits)
  show ?case
  proof (cases "a = r")
    case True
    then show ?thesis using Cons.prems IH b by simp
  next
    case False
    then have "protocol a \<noteq> p \<or> resource a \<noteq> resource r"
      using Cons.prems by (cases a, cases r) auto
    then show ?thesis using False IH b by (auto split: option.splits)
  qed
qed

lemma count_map_ge: "count_list xs x \<le> count_list (map f xs) (f x)"
  by (induction xs) auto

section \<open>CognitionLoader.checkNetworkExists\<close>

text \<open>
  C3, as stated, fails: when the access probe throws a permission error, the result
  has the computed path as \<open>networkPath\<close> and no \<open>error\<close> field.
\<close>

theorem checkNetworkExists_permission_counterexample:
  "checkNetworkExists (demo_env (\<lambda>p. Inl (Error (js ''EACCES: permission denied''))))
     demo_loader (js ''writer'')
    = Inr \<lparr>hasNetwork = False,
           networkPath = Some (js ''/home/u/.promptx/cognition/writer/network.json''),
           error = None\<rparr>"
  by (simp add: checkNetworkExists_def demo_env_def demo_loader_def js_def)

text \<open>
  C3, amended: checkNetworkExists never throws. When the path is computed,
  \<open>hasNetwork\<close> is true exactly when the access probe on it succeeds, and for every
  outcome of the probe, a failure for any reason included, \<open>networkPath\<close> is the
  computed path and there is no \<open>error\<close> field. Only when computing the path throws
  is the result \<open>hasNetwork: false\<close> with \<open>networkPath: null\<close> and the message of
  the exception as \<open>error\<close>.
\<close>

theorem checkNetworkExists_status:
  "\<exists>st. checkNetworkExists env cl roleId = Inr st \<and>
     (case path_join env [basePath cl, roleId, js ''network.json''] of
        Inr p \<Rightarrow>
          hasNetwork st = (fs_access env p = Inr ()) \<and> networkPath st = Some p \<and> error st = None
      | Inl e \<Rightarrow>
          hasNetwork st = False \<and> networkPath st = None \<and> error st = Some (message e))"
  by (auto simp add: checkNetworkExists_def split: sum.splits)

section \<open>processRole: what escapes\<close>

lemma includes_js_prefix: "includes_js (b @ c) b"
proof (cases "b @ c")
  case Nil
  then show ?thesis by simp
next
  case (Cons a list)
  have "take (length b) (b @ c) = b" by simp
  then show ?thesis unfolding Cons by simp
qed

lemma includes_js_mid: "includes_js (a @ b @ c) b"
  by (induction a) (simp_all add: includes_js_prefix)

lemma loadRole_sections: "loadRole rm roleId = Inr ri \<Longrightarrow> \<exists>secs. sections ri = Some secs"
  by (auto simp add: loadRole_def split: sum.splits option.splits if_splits)

lemma processRole_only_loadRole:
  "processRole env proc roleId mode = Inl e \<Longrightarrow> loadRole (resourceManager proc) roleId = Inl e"
proof (cases "loadRole (resourceManager proc) roleId")
  case (Inl a)
  then show "processRole env proc roleId mode = Inl e \<Longrightarrow> ?thesis"
    by (simp add: processRole_def)
next
  case (Inr ri)
  then obtain secs where s: "sections ri = Some secs"
    using loadRole_sections by blast
  assume "processRole env proc roleId mode = Inl e"
  then show ?thesis
    using Inr s analyzeDependencies_bundle[OF s, of "resourceManager proc"]
    by (auto simp add: processRole_def checkNetworkExists_def assembleContent_def
        split: sum.splits)
qed

text \<open>
  C5: when the resource manager is initialized (or its initialization succeeds) and the
  loader returns for the role nothing, a result without success, or a result without
  content or with empty content, processRole rejects with an error whose message
  includes the role id. And whenever processRole rejects, for any input, the error is
  the one loadRole threw: no failure of the three later stages escapes.
\<close>

theorem processRole_rejects_naming_role:
  assumes "initialized (resourceManager proc) \<or>
      initializeWithNewArchitecture (resourceManager proc) = Inr ()"
    and "loadResource (resourceManager proc) (js ''@role://'' @ roleId) = Inr result"
    and "result = None \<or>
      (\<exists>r. result = Some r \<and> (\<not> success r \<or> content r = None \<or> content r = Some []))"
  shows "(\<exists>e. processRole env proc roleId mode = Inl e \<and> includes_js (message e) roleId) \<and>
    (\<forall>env' proc' roleId' mode' e'. processRole env' proc' roleId' mode' = Inl e' \<longrightarrow>
        loadRole (resourceManager proc') roleId' = Inl e')"
proof -
  have "loadRole (resourceManager proc) roleId = Inl (Error (load_failed_message roleId))"
    using assms by (auto simp add: loadRole_def split: sum.splits option.splits)
  then have "processRole env proc roleId mode = Inl (Error (load_failed_message roleId))"
    by (simp add: processRole_def)
  moreover have "includes_js (load_failed_message roleId) roleId"
    unfolding load_failed_message_def
    using includes_js_mid[of "[0x65E0, 0x6CD5, 0x52A0, 0x8F7D, 0x89D2, 0x8272] @ js '' ''" roleId]
    by simp
  ultimately show ?thesis using processRole_only_loadRole by auto
qed

text \<open>
  C5, an instance: the loader reports no success for the role \<open>ghost\<close>, and processRole
  rejects with the loadRole error, whose message includes \<open>ghost\<close>.
\<close>

theorem processRole_rejects_naming_role_witness:
  "processRole (demo_env (\<lambda>p. Inr ()))
     \<lparr>resourceManager = demo_manager, cognitionLoader = demo_loader\<rparr> (js ''ghost'') (js ''command'')
     = Inl (Error (load_failed_message (js ''ghost''))) \<and>
   includes_js (load_failed_message (js ''ghost'')) (js ''ghost'')"
proof -
  have a: "initialized (resourceManager \<lparr>resourceManager = demo_manager, cognitionLoader = demo_loader\<rparr>) \<or>
     initializeWithNewArchitecture
       (resourceManager \<lparr>resourceManager = demo_manager, cognitionLoader = demo_loader\<rparr>) = Inr ()"
    by (simp add: demo_manager_def)
  have b: "loadResource (resourceManager \<lparr>resourceManager = demo_manager, cognitionLoader = demo_loader\<rparr>)
       (js ''@role://'' @ js ''ghost'')
     = Inr (Some \<lparr>success = False, content = None, metadata = None\<rparr>)"
    by (simp add: demo_manager_def js_def)
  have c: "Some \<lparr>success = False, content = None, metadata = None\<rparr> = None \<or>
     (\<exists>r. Some \<lparr>success = False, content = None, metadata = None\<rparr> = Some r \<and>
        (\<not> success r \<or> content r = None \<or> content r = Some []))"
    by simp
  obtain e where e: "processRole (demo_env (\<lambda>p. Inr ()))
       \<lparr>resourceManager = demo_manager, cognitionLoader = demo_loader\<rparr> (js ''ghost'') (js ''command'')
       = Inl e"
     "includes_js (message e) (js ''ghost'')"
    using processRole_rejects_naming_role[OF a b c] by blast
  have "loadRole demo_manager (js ''ghost'') = Inl (Error (load_failed_message (js ''ghost'')))"
    using b by (simp add: loadRole_def demo_manager_def)
  then have "e = Error (load_failed_message (js ''ghost''))"
    using e(1) by (simp add: processRole_def)
  then show ?thesis using e by simp
qed

section \<open>assembleContent is total and reads only its arguments\<close>

text \<open>
  C9: for every well-typed input, that is a role that has its \<open>sections\<close>, any
  dependencies, any cognition status and any mode, assembleContent returns a string
  and does not throw. The string is a function of the arguments alone, and of them only
  of the role id, the sections, the thoughts, the executions, \<open>hasNetwork\<close> and the
  mode: two calls that agree on these return the same string.
\<close>

theorem assembleContent_total:
  assumes "sections roleInfo = Some secs"
  shows "(\<exists>out. assembleContent roleInfo deps cognitionData mode = Inr out) \<and>
    (\<forall>roleInfo' deps' cognitionData'.
       role_id roleInfo' = role_id roleInfo \<and> sections roleInfo' = sections roleInfo \<and>
       thoughts deps' = thoughts deps \<and> executions deps' = executions deps \<and>
       hasNetwork cognitionData' = hasNetwork cognitionData \<longrightarrow>
       assembleContent roleInfo' deps' cognitionData' mode
         = assembleContent roleInfo deps cognitionData mode)"
  using assms by (simp add: assembleContent_def assemble_parts_def)

text \<open>C9, an instance: the role \<open>writer\<close> with one execution, in command mode.\<close>

theorem assembleContent_total_witness:
  "sections writer_role = Some [(''personality'', Some (js ''Calm.'')),
       (''principle'', Some (js ''Be concise. @!execution://summarize'')),
       (''knowledge'', None)] \<and>
   (\<exists>out. assembleContent writer_role
      \<lparr>thoughts = [],
       executions = [\<lparr>dep_id = js ''summarize'', dep_content = js ''Summarize input.''\<rparr>],
       knowledges = []\<rparr>
      \<lparr>hasNetwork = False, networkPath = None, error = None\<rparr> (js ''command'') = Inr out)"
proof -
  have h: "sections writer_role = Some [(''personality'', Some (js ''Calm.'')),
       (''principle'', Some (js ''Be concise. @!execution://summarize'')),
       (''knowledge'', None)]"
    by (simp add: writer_role_def)
  show ?thesis
    using h assembleContent_total[OF h] by blast
qed

section \<open>RoleLoader: the role span\<close>

text \<open>A literal matches when its text is a prefix of the input.\<close>

lemma rmatch_lit:
  "rmatch (lit p @ r) s =
     (if take (length p) s = js p then
        map_option (\<lambda>(gs, t). (singles (js p) @ gs, t)) (rmatch r (drop (length p) s))
      else None)"
proof (induction p arbitrary: s)
  case Nil
  then show ?case by (cases "rmatch r s") (auto simp add: lit_def js_def singles_def)
next
  case (Cons a p)
  have l: "lit (a # p) @ r = Atom (\<lambda>x. x = of_char a) Once # (lit p @ r)"
    by (simp add: lit_def)
  show ?case
  proof (cases s)
    case Nil
    then show ?thesis unfolding l by (simp add: js_def)
  next
    case (Cons c cs)
    show ?thesis unfolding l Cons using Cons.IH[of cs]
      by (auto simp add: js_def singles_def option.map_comp comp_def split: prod.splits
          intro!: option.map_cong)
  qed
qed

lemma rmatch_lazy_lit:
  "p \<noteq> [] \<Longrightarrow> rmatch (Atom any_char LazyStar # lit p) s =
     map_option (\<lambda>(a, b). (a # singles (js p), b)) (find_first (js p) s)"
proof (induction s)
  case Nil
  then show ?case using rmatch_lit[of p "[]" "[]"] by (simp add: js_def)
next
  case (Cons c cs)
  have m: "rmatch (lit p) (c # cs) = (if take (length p) (c # cs) = js p then Some (singles (js p), drop (length p) (c # cs)) else None)"
    using rmatch_lit[of p "[]" "c # cs"] by simp
  have len: "length (js p) = length p" by (simp add: js_def)
  show ?case
  proof (cases "take (length p) (c # cs) = js p")
    case True
    then show ?thesis using m by (simp add: len)
  next
    case False
    then show ?thesis using m Cons
      by (cases "find_first (js p) cs") (auto simp add: len any_char_def)
  qed
qed


lemma find_first_decomp: "find_first pat s = Some (a, b) \<Longrightarrow> s = a @ pat @ b"
proof (induction s arbitrary: a)
  case Nil
  then show ?case by (simp split: if_splits)
next
  case (Cons c cs)
  show ?case
  proof (cases "take (length pat) (c # cs) = pat")
    case True
    then have "a = []" "b = drop (length pat) (c # cs)" using Cons.prems by simp_all
    then show ?thesis using True by (metis append_Nil append_take_drop_id)
  next
    case False
    then obtain a' where "find_first pat cs = Some (a', b)" "a = c # a'"
      using Cons.prems by (auto split: option.splits)
    then show ?thesis using Cons.IH by simp
  qed
qed

lemma find_first_None_tl: "q \<noteq> [] \<Longrightarrow> find_first q (c # cs) = None \<Longrightarrow> find_first q cs = None"
  by (simp split: if_splits)

lemma find_first_None_drop: "q \<noteq> [] \<Longrightarrow> find_first q s = None \<Longrightarrow> find_first q (drop n s) = None"
proof (induction n arbitrary: s)
  case 0
  then show ?case by simp
next
  case (Suc n)
  show ?case
  proof (cases s)
    case Nil
    then show ?thesis using Suc.prems by simp
  next
    case (Cons c cs)
    then show ?thesis using Suc.prems Suc.IH[of cs] find_first_None_tl[of q c cs] by simp
  qed
qed

lemma rmatch_pair:
  assumes "q \<noteq> []"
  shows "rmatch (lit p @ Atom any_char LazyStar # lit q) s =
     (if take (length p) s = js p then
        map_option (\<lambda>(a, b). (singles (js p) @ a # singles (js q), b))
          (find_first (js q) (drop (length p) s))
      else None)"
  unfolding rmatch_lit rmatch_lazy_lit[OF assms]
  by (auto simp add: option.map_comp comp_def split_def)

lemma rsearch_pair:
  assumes "p \<noteq> []" "q \<noteq> []"
  shows "rsearch (lit p @ Atom any_char LazyStar # lit q) s =
     map_option (\<lambda>(pre, inner, post). (pre, singles (js p) @ inner # singles (js q), post))
       (first_pair (js p) (js q) s)"
proof (induction s)
  case Nil
  have "js p \<noteq> []" using assms by (simp add: js_def)
  then show ?case using assms by (simp add: rmatch_pair first_pair_def)
next
  case (Cons c cs)
  have len: "length (js p) = length p" by (simp add: js_def)
  have qne: "js q \<noteq> []" using assms by (simp add: js_def)
  show ?case
  proof (cases "take (length p) (c # cs) = js p")
    case True
    then have ff: "find_first (js p) (c # cs) = Some ([], drop (length p) (c # cs))"
      by (simp add: len)
    show ?thesis
    proof (cases "find_first (js q) (drop (length p) (c # cs))")
      case None
      have "first_pair (js p) (js q) cs = None"
      proof (cases "find_first (js p) cs")
        case None
        then show ?thesis by (simp add: first_pair_def)
      next
        case (Some ab)
        obtain a b where ab: "ab = (a, b)" by (cases ab)
        have "cs = a @ js p @ b" using Some ab find_first_decomp by blast
        then have "b = drop (length a + length p) cs"
          by (simp add: len)
        then have "b = drop (Suc (length a + length p)) (c # cs)"
          by simp
        then have b: "b = drop (length a + 1) (drop (length p) (c # cs))"
          by (simp only: drop_drop) (simp add: add.commute)
        have "find_first (js q) (drop (length a + 1) (drop (length p) (c # cs))) = None"
          by (rule find_first_None_drop[OF qne None])
        then have "find_first (js q) b = None"
          by (simp only: b)
        then show ?thesis using Some ab by (simp add: first_pair_def)
      qed
      then show ?thesis using True None ff Cons.IH
        by (simp add: rmatch_pair[OF assms(2)] first_pair_def)
    next
      case (Some ab)
      then show ?thesis using True ff
        by (cases ab) (simp add: rmatch_pair[OF assms(2)] first_pair_def)
    qed
  next
    case False
    then have m: "rmatch (lit p @ Atom any_char LazyStar # lit q) (c # cs) = None"
      by (simp add: rmatch_pair[OF assms(2)])
    have ff: "find_first (js p) (c # cs) = map_option (\<lambda>(a, b). (c # a, b)) (find_first (js p) cs)"
      using False by (simp add: len)
    show ?thesis using m ff Cons.IH
      by (auto simp add: first_pair_def split: option.splits)
  qed
qed

lemma rsearch_role_re:
  "rsearch role_re s =
     map_option (\<lambda>(pre, inner, post).
         (pre, singles (js ''<role>'') @ inner # singles (js ''</role>''), post))
       (first_pair (js ''<role>'') (js ''</role>'') s)"
proof -
  have r: "role_re = lit ''<role>'' @ Atom any_char LazyStar # lit ''</role>''"
    by (simp add: role_re_def)
  show ?thesis
    unfolding r by (rule rsearch_pair) simp_all
qed

lemma role_group: "(singles (js ''<role>'') @ inner # singles (js ''</role>'')) ! 6 = inner"
  by (simp add: singles_def js_def nth_append)

text \<open>
  C4, as stated, fails: in
  \<^verbatim>\<open><role>a<role>b</role><personality>p</personality></role>\<close> the span from the
  first opening delimiter to the last closing delimiter (the outermost element) holds a
  personality section; parseDPMLContent stops at the first closing delimiter and finds
  none.
\<close>

theorem parseDPMLContent_outermost_counterexample:
  "outermost_role_span (js ''<role>a<role>b</role><personality>p</personality></role>'')
     = Some (js ''a<role>b</role><personality>p</personality>'') \<and>
   extractSection (js ''a<role>b</role><personality>p</personality>'') ''personality''
     = Some (js ''p'') \<and>
   parseDPMLContent (js ''<role>a<role>b</role><personality>p</personality></role>'')
     = [(''personality'', None), (''principle'', None), (''knowledge'', None)]"
  by (simp add: outermost_role_span_def parseDPMLContent_def extractSection_def trim_def js_def
      re_defs cls_defs)

text \<open>
  C4, amended: for every role content string, parseDPMLContent extracts the three named
  sections from the text between the first \<^verbatim>\<open><role>\<close> and the first
  \<^verbatim>\<open></role>\<close> after it; when there is no such pair, the sections are empty and
  nothing is thrown.
\<close>

theorem parseDPMLContent_first_close:
  "parseDPMLContent roleText =
     (case first_pair (js ''<role>'') (js ''</role>'') roleText of
        None \<Rightarrow> []
      | Some (pre, roleContent, post) \<Rightarrow>
          [(''personality'', extractSection roleContent ''personality''),
           (''principle'', extractSection roleContent ''principle''),
           (''knowledge'', extractSection roleContent ''knowledge'')])"
  unfolding parseDPMLContent_def rsearch_role_re
  by (auto simp add: role_group split: option.splits)


section \<open>A role without role tags\<close>







section \<open>cleanContent: matches and replacement\<close>

text \<open>The rest after a match is a suffix of the input, a proper one for a consuming pattern.\<close>

lemma rmatch_rest_le: "rmatch r s = Some (gs, t) \<Longrightarrow> length t \<le> length s"
  using rmatch_parts[of r s gs t] by (metis length_append le_add2)

lemma rmatch_consuming:
  "rmatch r s = Some (gs, t) \<Longrightarrow> list_ex consumes r \<Longrightarrow> length t < length s"
proof (induction r s arbitrary: gs t rule: rmatch.induct)
  case (1 s)
  then show ?case by simp
next
  case (2 p r)
  then show ?case by simp
next
  case (3 p r c cs)
  then obtain m where "rmatch r cs = Some m" "snd m = t"
    by (auto split: if_splits)
  then show ?case using rmatch_rest_le[of r cs "fst m" t] by (cases m) auto
next
  case (4 p r)
  then show ?case by auto
next
  case (5 p r c cs)
  then show ?case by (auto split: if_splits option.splits)
next
  case (6 p r)
  then show ?case by auto
next
  case (7 p r c cs)
  show ?case
  proof (cases "p c")
    case True
    show ?thesis
    proof (cases "rmatch (Atom p GreedyStar # r) cs")
      case None
      then show ?thesis using 7 True by auto
    next
      case (Some m)
      obtain gs' t' where m: "m = (gs', t')" by (cases m)
      have "t' = t" using 7(4) True Some m by (cases gs') auto
      then have "length t < length cs" using 7(1)[OF True, of gs' t] Some m 7(5) by simp
      then show ?thesis by simp
    qed
  next
    case False
    then show ?thesis using 7 by auto
  qed
next
  case (8 p r)
  then show ?case by simp
next
  case (9 p r c cs)
  then obtain m where m: "rmatch (Atom p GreedyStar # r) cs = Some m" "snd (push c m) = t"
    by (auto split: if_splits)
  then have "snd m = t" by (cases m; cases "fst m") auto
  then show ?case using m rmatch_rest_le[of "Atom p GreedyStar # r" cs "fst m" t] by (cases m) auto
next
  case (10 p r)
  then show ?case by auto
next
  case (11 p r c cs)
  show ?case
  proof (cases "rmatch r (c # cs)")
    case (Some m)
    then show ?thesis using 11 by (cases m) auto
  next
    case None
    then obtain m where m: "p c" "rmatch (Atom p LazyStar # r) cs = Some m" "snd (push c m) = t"
      using 11(3) by (auto split: if_splits)
    then have "snd m = t" by (cases m; cases "fst m") auto
    then have "length t < length cs" using 11(2)[OF None m(1), of "fst m" t] m 11(4) by (cases m) auto
    then show ?thesis by simp
  qed
qed

lemma rreplace_consuming:
  "list_ex consumes r \<Longrightarrow> rreplace r rep (c # cs) =
     (case rmatch r (c # cs) of
        None \<Rightarrow> c # rreplace r rep cs
      | Some (gs, t) \<Rightarrow> rep @ rreplace r rep t)"
  using rmatch_consuming[of r "c # cs"] by (auto split: option.splits)

lemma replace_induct [consumes 1, case_names Nil Keep Replace]:
  assumes "list_ex consumes r"
    and "P []"
    and "\<And>c cs. rmatch r (c # cs) = None \<Longrightarrow> P cs \<Longrightarrow> P (c # cs)"
    and "\<And>c cs gs t. rmatch r (c # cs) = Some (gs, t) \<Longrightarrow> P t \<Longrightarrow> P (c # cs)"
  shows "P s"
proof (induction s rule: length_induct)
  case (1 xs)
  show ?case
  proof (cases xs)
    case Nil
    then show ?thesis using assms(2) by simp
  next
    case (Cons c cs)
    show ?thesis
    proof (cases "rmatch r (c # cs)")
      case None
      then show ?thesis using assms(3) 1 Cons by simp
    next
      case (Some m)
      obtain gs t where m: "m = (gs, t)" by (cases m)
      have "length t < length xs"
        using rmatch_consuming[OF _ assms(1), of "c # cs" gs t] Some m Cons by simp
      then show ?thesis using assms(4)[of c cs gs t] 1 Some m Cons by simp
    qed
  qed
qed

lemma rreplace_nomatch: "rsearch r s = None \<Longrightarrow> rreplace r rep s = s"
  by (induction s) (auto split: option.splits)

lemma rsearch_tl: "rsearch r (c # cs) = None \<Longrightarrow> rsearch r cs = None"
  by (auto split: option.splits)

lemma rsearch_dropWhile: "rsearch r s = None \<Longrightarrow> rsearch r (dropWhile P s) = None"
  by (induction s) (auto split: option.splits)


subsection \<open>Blank lines\<close>

text \<open>
  The blank-line pattern matches at a line feed that is followed, within the same run
  of white space, by two more; being greedy, it takes the run up to its last line feed.
\<close>

lemma ws_nl: "ws nl"
  by (simp add: ws_def nl_def)

lemma blank_tail1:
  "(case rmatch [Atom ws GreedyStar, Atom (\<lambda>x. x = nl) Once] s of
      None \<Rightarrow> nlcount s = 0
    | Some (gs, t) \<Rightarrow> 0 < nlcount s \<and> nlcount t = 0)"
proof (induction s)
  case Nil
  then show ?case by simp
next
  case (Cons c cs)
  show ?case
  proof (cases "rmatch [Atom ws GreedyStar, Atom (\<lambda>x. x = nl) Once] cs")
    case None
    then show ?thesis using Cons ws_nl by auto
  next
    case (Some m)
    obtain gs t where m: "m = (gs, t)" by (cases m)
    have "snd (push c m) = t" using m by (cases gs) auto
    then show ?thesis using Cons Some m ws_nl by (cases "push c m") auto
  qed
qed

lemma blank_tail2:
  "(case rmatch [Atom ws GreedyStar, Atom (\<lambda>x. x = nl) Once,
                 Atom ws GreedyStar, Atom (\<lambda>x. x = nl) Once] s of
      None \<Rightarrow> nlcount s \<le> 1
    | Some (gs, t) \<Rightarrow> 2 \<le> nlcount s \<and> nlcount t = 0)"
proof (induction s)
  case Nil
  then show ?case by simp
next
  case (Cons c cs)
  let ?r2 = "[Atom ws GreedyStar, Atom (\<lambda>x. x = nl) Once,
              Atom ws GreedyStar, Atom (\<lambda>x. x = nl) Once]"
  let ?r1 = "[Atom ws GreedyStar, Atom (\<lambda>x. x = nl) Once]"
  show ?case
  proof (cases "rmatch ?r2 cs")
    case None
    then have le: "nlcount cs \<le> 1" using Cons by simp
    show ?thesis
    proof (cases "rmatch ?r1 cs")
      case None
      then show ?thesis using \<open>rmatch ?r2 cs = None\<close> le blank_tail1[of cs] ws_nl by auto
    next
      case (Some m)
      then show ?thesis using \<open>rmatch ?r2 cs = None\<close> le blank_tail1[of cs] ws_nl
        by (cases m) auto
    qed
  next
    case (Some m)
    obtain gs t where m: "m = (gs, t)" by (cases m)
    have "snd (push c m) = t" using m by (cases gs) auto
    then show ?thesis using Cons Some m ws_nl
      by (cases "push c m"; cases "rmatch ?r1 cs") auto
  qed
qed

lemma blank_match:
  "(case rmatch blank_re s of
      None \<Rightarrow> \<not> (\<exists>cs. s = nl # cs \<and> 2 \<le> nlcount cs)
    | Some (gs, t) \<Rightarrow> (\<exists>cs. s = nl # cs \<and> 2 \<le> nlcount cs) \<and> nlcount t = 0)"
proof (cases s)
  case Nil
  then show ?thesis by (simp add: blank_re_def)
next
  case (Cons c cs)
  show ?thesis using blank_tail2[of cs] unfolding Cons blank_re_def
    by (auto split: option.splits)
qed

lemma blank_None_iff: "rmatch blank_re s = None \<longleftrightarrow> \<not> (\<exists>cs. s = nl # cs \<and> 2 \<le> nlcount cs)"
  using blank_match[of s] by (cases "rmatch blank_re s") auto

lemma blank_rest: "rmatch blank_re s = Some (gs, t) \<Longrightarrow> nlcount t = 0"
  using blank_match[of s] by simp

lemma blank_consumes: "list_ex consumes blank_re"
  by (simp add: blank_re_def)

lemma collapse_Cons:
  "collapse (c # cs) =
     (case rmatch blank_re (c # cs) of
        None \<Rightarrow> c # collapse cs
      | Some (gs, t) \<Rightarrow> [nl, nl] @ collapse t)"
  unfolding collapse_def by (rule rreplace_consuming[OF blank_consumes])

lemma collapse_Nil: "collapse [] = []"
  by (simp add: collapse_def blank_re_def)

lemmas collapse_induct = replace_induct[OF blank_consumes, case_names Nil Keep Replace]

lemma nlcount_collapse: "nlcount (collapse s) \<le> nlcount s"
proof (induction s rule: collapse_induct)
  case Nil
  then show ?case by (simp add: collapse_Nil)
next
  case (Keep c cs)
  then show ?case by (simp add: collapse_Cons)
next
  case (Replace c cs gs t)
  have "nlcount t = 0" using blank_rest[OF Replace(1)] .
  moreover have "2 \<le> nlcount cs" "c = nl"
    using blank_None_iff[of "c # cs"] Replace(1) by auto
  ultimately show ?case using Replace ws_nl by (simp add: collapse_Cons)
qed

lemma collapse_no_blank: "rsearch blank_re (collapse s) = None"
proof (induction s rule: collapse_induct)
  case Nil
  then show ?case by (simp add: collapse_Nil blank_re_def)
next
  case (Keep c cs)
  have "rmatch blank_re (c # collapse cs) = None"
    using Keep(1) nlcount_collapse[of cs] unfolding blank_None_iff by auto
  then show ?case using Keep by (simp add: collapse_Cons)
next
  case (Replace c cs gs t)
  have z: "nlcount (collapse t) = 0"
    using blank_rest[OF Replace(1)] nlcount_collapse[of t] by simp
  have "rmatch blank_re (nl # nl # collapse t) = None" "rmatch blank_re (nl # collapse t) = None"
    unfolding blank_None_iff using z ws_nl by auto
  then show ?case using Replace by (simp add: collapse_Cons)
qed

lemma nlcount_append: "nlcount s \<le> nlcount (s @ v)"
  by (induction s) auto

lemma blank_prefix: "rsearch blank_re (s @ v) = None \<Longrightarrow> rsearch blank_re s = None"
proof (induction s)
  case Nil
  then show ?case by (simp add: blank_re_def)
next
  case (Cons c cs)
  then have a: "rmatch blank_re (c # cs @ v) = None" and b: "rsearch blank_re (cs @ v) = None"
    by (auto split: option.splits)
  have "rmatch blank_re (c # cs) = None"
    using a nlcount_append[of cs v] unfolding blank_None_iff by auto
  then show ?case using Cons.IH[OF b] by simp
qed

lemma trim_no_blank: "rsearch blank_re s = None \<Longrightarrow> rsearch blank_re (trim s) = None"
proof -
  assume a: "rsearch blank_re s = None"
  let ?d = "dropWhile ws s"
  have "?d = rev (dropWhile ws (rev ?d)) @ rev (takeWhile ws (rev ?d))"
    by (metis rev_append rev_rev_ident takeWhile_dropWhile_id)
  then have "rsearch blank_re (rev (dropWhile ws (rev ?d)) @ rev (takeWhile ws (rev ?d))) = None"
    using rsearch_dropWhile[OF a, of ws] by simp
  then show ?thesis unfolding trim_def by (rule blank_prefix)
qed


lemma cleanContent_no_blank: "rsearch blank_re (cleanContent x) = None"
  using trim_no_blank[OF collapse_no_blank]
  by (simp add: cleanContent_def blank_re_def)


subsection \<open>Reference tokens\<close>




lemma token_consumes: "list_ex consumes token_re"
  by (simp add: token_re_def lit_def)


lemma strip_tokens_Cons:
  "strip_tokens (c # cs) =
     (case rmatch token_re (c # cs) of
        None \<Rightarrow> c # strip_tokens cs
      | Some (gs, t) \<Rightarrow> [] @ strip_tokens t)"
  unfolding strip_tokens_def by (rule rreplace_consuming[OF token_consumes])

subsection \<open>Evaluation of cleanContent\<close>

lemmas clean_defs = cleanContent_def strip_tags_def strip_tokens_def collapse_def trim_def js_def
  re_defs cls_defs

lemma clean_spliced_tag:
  "cleanContent (js ''<ref<reference>erence>'') = js ''<reference>''"
  "cleanContent (js ''<reference>'') = []"
  by (simp_all add: clean_defs)


lemma clean_example:
  "cleanContent (js ''a'' @ [nl, nl, nl, nl] @ js ''b @t://x c'') = js ''a'' @ [nl, nl] @ js ''bc''"
  by (simp add: clean_defs)

lemma clean_example_stripped:
  "rsearch open_tag_re (js ''a'' @ [nl, nl] @ js ''bc'') = None"
  "rsearch close_tag_re (js ''a'' @ [nl, nl] @ js ''bc'') = None"
  "rsearch token_re (js ''a'' @ [nl, nl] @ js ''bc'') = None"
  by (simp_all add: js_def re_defs cls_defs)

section \<open>cleanContent: what a second pass changes\<close>

lemma trim_trim: "trim (trim s) = trim s"
proof -
  let ?d = "dropWhile ws s"
  let ?e = "dropWhile ws (rev ?d)"
  have e: "dropWhile ws ?e = ?e"
    by (metis dropWhile_idem)
  have "dropWhile ws (rev ?e) = rev ?e"
  proof (cases "?e = []")
    case True
    show ?thesis unfolding True by simp
  next
    case False
    have dne: "?d \<noteq> []"
    proof
      assume z: "?d = []"
      have "?e = []" unfolding z by simp
      then show False using False by blast
    qed
    then have h: "\<not> ws (hd ?d)" by (metis hd_dropWhile)
    have "last (rev ?d) = hd ?d" using dne by (simp add: last_rev)
    have "rev ?d = takeWhile ws (rev ?d) @ ?e" by simp
    then have "last ?e = last (rev ?d)" using False by (metis last_appendR)
    then have "hd (rev ?e) = hd ?d" using False \<open>last (rev ?d) = hd ?d\<close> by (simp add: hd_rev)
    then have "\<not> ws (hd (rev ?e))" using h by simp
    then show ?thesis using False by (cases "rev ?e") auto
  qed
  then show ?thesis using e by (simp add: trim_def)
qed

text \<open>
  C1, as stated, fails: removing the tag inside \<^verbatim>\<open><ref<reference>erence>\<close> leaves
  the tag \<^verbatim>\<open><reference>\<close>, which a second pass removes.
\<close>

theorem cleanContent_idempotent_counterexample:
  "cleanContent (js ''<ref<reference>erence>'') = js ''<reference>'' \<and>
   cleanContent (cleanContent (js ''<ref<reference>erence>'')) = []"
  by (simp only: clean_spliced_tag simp_thms)

text \<open>
  C1, amended: cleanContent(cleanContent(x)) = cleanContent(x) for every input x whose
  cleaned text holds no reference tag, opening or closing, and no reference token, that
  is, nothing that the three strip steps match. (The removals of the first pass can
  join the text around them into a new tag or token; blank lines and outer white space
  never need a second pass.)
\<close>

theorem cleanContent_idempotent_when_stripped:
  assumes "rsearch open_tag_re (cleanContent x) = None"
    and "rsearch close_tag_re (cleanContent x) = None"
    and "rsearch token_re (cleanContent x) = None"
  shows "cleanContent (cleanContent x) = cleanContent x"
proof (cases "cleanContent x = []")
  case True
  then show ?thesis by (simp add: cleanContent_def)
next
  case False
  then have y: "cleanContent x = trim (collapse (strip_tokens (strip_tags x)))"
    by (auto simp add: cleanContent_def split: if_splits)
  have a: "strip_tags (cleanContent x) = cleanContent x"
    using assms(1,2) by (simp add: strip_tags_def rreplace_nomatch)
  have b: "strip_tokens (cleanContent x) = cleanContent x"
    using assms(3) by (simp add: strip_tokens_def rreplace_nomatch)
  have c: "collapse (cleanContent x) = cleanContent x"
    using cleanContent_no_blank[of x] by (simp add: collapse_def rreplace_nomatch)
  have d: "trim (cleanContent x) = cleanContent x"
    unfolding y by (rule trim_trim)
  show ?thesis
    using False a b c d by (simp add: cleanContent_def[of "cleanContent x"])
qed

text \<open>
  C1, an instance: a text with four line feeds and a token; its cleaned text has
  nothing to strip and is a fixed point.
\<close>

theorem cleanContent_idempotent_when_stripped_witness:
  "cleanContent (js ''a'' @ [nl, nl, nl, nl] @ js ''b @t://x c'') = js ''a'' @ [nl, nl] @ js ''bc'' \<and>
   rsearch open_tag_re (cleanContent (js ''a'' @ [nl, nl, nl, nl] @ js ''b @t://x c'')) = None \<and>
   rsearch close_tag_re (cleanContent (js ''a'' @ [nl, nl, nl, nl] @ js ''b @t://x c'')) = None \<and>
   rsearch token_re (cleanContent (js ''a'' @ [nl, nl, nl, nl] @ js ''b @t://x c'')) = None \<and>
   cleanContent (cleanContent (js ''a'' @ [nl, nl, nl, nl] @ js ''b @t://x c''))
     = cleanContent (js ''a'' @ [nl, nl, nl, nl] @ js ''b @t://x c'')"
proof -
  have a: "rsearch open_tag_re (cleanContent (js ''a'' @ [nl, nl, nl, nl] @ js ''b @t://x c'')) = None"
    and b: "rsearch close_tag_re (cleanContent (js ''a'' @ [nl, nl, nl, nl] @ js ''b @t://x c'')) = None"
    and c: "rsearch token_re (cleanContent (js ''a'' @ [nl, nl, nl, nl] @ js ''b @t://x c'')) = None"
    unfolding clean_example by (rule clean_example_stripped)+
  show ?thesis
    using a b c clean_example cleanContent_idempotent_when_stripped[OF a b c] by simp
qed

section \<open>DependencyAnalyzer: every occurrence of a reference is loaded\<close>

text \<open>
  The extracted list holds a reference as often as the pattern matches it in the
  sections' text; and in a text made of k tokens of a reference, the pattern matches
  it k times.
\<close>

lemma count_list_concat: "count_list (concat xss) x = sum_list (map (\<lambda>xs. count_list xs x) xss)"
  by (induction xss) simp_all

lemma count_list_map_filter: "count_list (map f xs) y = length (filter (\<lambda>x. f x = y) xs)"
  by (induction xs) simp_all

lemma ref_re_Nil: "rmatch ref_re [] = None"
  by (simp add: ref_re_def lit_def)

lemma rmatchAll_ref_Nil: "rmatchAll ref_re [] = []"
  by (simp add: ref_re_Nil)

lemma count_extractFromText:
  "count_list (extractFromText sec) r =
     (case sec of
        None \<Rightarrow> 0
      | Some text \<Rightarrow>
          length (filter (\<lambda>gs. gs ! 2 = protocol r \<and> gs ! 6 = resource r) (rmatchAll ref_re text)))"
proof (cases sec)
  case None
  then show ?thesis by simp
next
  case (Some body)
  have e: "(\<lparr>protocol = a, resource = b\<rparr> = r) = (a = protocol r \<and> b = resource r)" for a b
    by (cases r) auto
  show ?thesis unfolding Some
    by (cases "body = []") (simp_all add: ref_re_Nil count_list_map_filter e)
qed

lemma count_extracted: "count_list (extractResourceReferences secs) r = occurrences secs r"
  unfolding extractResourceReferences_def occurrences_def count_list_concat
  by (simp add: comp_def split_def count_extractFromText)

lemma greedy_star_run:
  "list_all q run \<Longrightarrow> s = [] \<or> \<not> q (hd s) \<Longrightarrow> rmatch rr s = Some (gs, t) \<Longrightarrow>
   rmatch (Atom q GreedyStar # rr) (run @ s) = Some (run # gs, t)"
proof (induction run)
  case Nil
  then show ?case by (cases s) auto
next
  case (Cons x xs)
  then show ?case by simp
qed

lemma greedy_plus_run:
  "run \<noteq> [] \<Longrightarrow> list_all q run \<Longrightarrow> s = [] \<or> \<not> q (hd s) \<Longrightarrow> rmatch rr s = Some (gs, t) \<Longrightarrow>
   rmatch (Atom q GreedyPlus # rr) (run @ s) = Some (run # gs, t)"
  using greedy_star_run[of q "tl run" s rr gs t] by (cases run) auto

lemma ref_re_at_token:
  assumes "plain_ref r" and "s = [] \<or> \<not> res_char (hd s)"
  shows "rmatch ref_re (js ''@'' @ (if bang then [0x21] else []) @ protocol r @ js ''://'' @ resource r @ s)
    = Some ([[0x40], (if bang then [0x21] else []), protocol r, [0x3A], [0x2F], [0x2F], resource r], s)"
proof -
  have p: "protocol r \<noteq> []" "list_all not_colon (protocol r)" "hd (protocol r) \<noteq> 0x21"
    "resource r \<noteq> []" "list_all res_char (resource r)"
    using assms(1) by (simp_all add: plain_ref_def)
  have a: "rmatch [Atom res_char GreedyPlus] (resource r @ s) = Some ([resource r], s)"
    using greedy_plus_run[OF p(4) p(5) assms(2), of "[]" "[]" s] by simp
  have b: "rmatch (lit ''://'' @ [Atom res_char GreedyPlus]) (js ''://'' @ resource r @ s)
      = Some ([[0x3A], [0x2F], [0x2F], resource r], s)"
    using a by (simp add: lit_def js_def)
  have "\<not> not_colon (hd (js ''://'' @ resource r @ s))"
    by (simp add: js_def not_colon_def)
  then have c: "rmatch (Atom not_colon GreedyPlus # lit ''://'' @ [Atom res_char GreedyPlus])
        (protocol r @ js ''://'' @ resource r @ s)
      = Some ([protocol r, [0x3A], [0x2F], [0x2F], resource r], s)"
    using greedy_plus_run[OF p(1) p(2) _ b] by simp
  obtain x xs where px: "protocol r = x # xs" "x \<noteq> 0x21"
    using p(1,3) by (cases "protocol r") auto
  have d: "rmatch (Atom (\<lambda>x. x = 0x21) Optional # Atom not_colon GreedyPlus # lit ''://''
          @ [Atom res_char GreedyPlus])
        ((if bang then [0x21] else []) @ protocol r @ js ''://'' @ resource r @ s)
      = Some ([(if bang then [0x21] else []), protocol r, [0x3A], [0x2F], [0x2F], resource r], s)"
  proof (cases bang)
    case True
    then show ?thesis using c by simp
  next
    case False
    then show ?thesis using c px by simp
  qed
  have e: "ref_re = Atom (\<lambda>x. x = 0x40) Once # Atom (\<lambda>x. x = 0x21) Optional
      # Atom not_colon GreedyPlus # lit ''://'' @ [Atom res_char GreedyPlus]"
    by (simp add: ref_re_def lit_def)
  show ?thesis unfolding e using d by (simp add: js_def)
qed

lemma ref_consumes: "list_ex consumes ref_re"
  by (simp add: ref_re_def lit_def)

lemma rmatchAll_consuming:
  "list_ex consumes r \<Longrightarrow> rmatchAll r (c # cs) =
     (case rmatch r (c # cs) of
        None \<Rightarrow> rmatchAll r cs
      | Some (gs, t) \<Rightarrow> gs # rmatchAll r t)"
  using rmatch_consuming[of r "c # cs"] by (auto split: option.splits)

lemma ref_re_needs_at: "c \<noteq> 0x40 \<Longrightarrow> rmatch ref_re (c # cs) = None"
  by (simp add: ref_re_def lit_def)

lemma rmatchAll_skip: "0x40 \<notin> set u \<Longrightarrow> rmatchAll ref_re (u @ s) = rmatchAll ref_re s"
proof (induction u)
  case Nil
  then show ?case by simp
next
  case (Cons c u)
  then have "rmatch ref_re (c # u @ s) = None" using ref_re_needs_at by simp
  then show ?case using Cons by (simp add: rmatchAll_consuming[OF ref_consumes])
qed

lemma rmatchAll_occurrence_text:
  "plain_ref r \<Longrightarrow> fillers_ok items \<Longrightarrow>
   rmatchAll ref_re (occurrence_text r items)
     = map (\<lambda>(bang, filler).
         [[0x40], (if bang then [0x21] else []), protocol r, [0x3A], [0x2F], [0x2F], resource r]) items"
proof (induction items)
  case Nil
  then show ?case by (simp add: ref_re_Nil)
next
  case (Cons item items)
  obtain bang filler where i: "item = (bang, filler)" by (cases item)
  have f: "0x40 \<notin> set filler" "fillers_ok items"
    and g: "filler = [] \<longrightarrow> items = []" "filler \<noteq> [] \<longrightarrow> \<not> res_char (hd filler)"
    using Cons.prems(2) i by (auto split: if_splits)
  let ?s = "filler @ occurrence_text r items"
  have h: "?s = [] \<or> \<not> res_char (hd ?s)"
    using g by (cases filler) auto
  have m: "rmatch ref_re (js ''@'' @ (if bang then [0x21] else []) @ protocol r @ js ''://''
        @ resource r @ ?s)
    = Some ([[0x40], (if bang then [0x21] else []), protocol r, [0x3A], [0x2F], [0x2F], resource r], ?s)"
    by (rule ref_re_at_token[OF Cons.prems(1) h])
  have t: "occurrence_text r (item # items) = 0x40 # ((if bang then [0x21] else []) @ protocol r
      @ js ''://'' @ resource r @ ?s)"
    unfolding i by (simp add: js_def)
  have "rmatchAll ref_re (occurrence_text r (item # items))
      = [[0x40], (if bang then [0x21] else []), protocol r, [0x3A], [0x2F], [0x2F], resource r]
        # rmatchAll ref_re ?s"
    unfolding t using m[unfolded t[unfolded i, symmetric]] 
    by (simp add: rmatchAll_consuming[OF ref_consumes] js_def)
  then show ?case using Cons.IH[OF Cons.prems(1) f(2)] rmatchAll_skip[OF f(1)] i by simp
qed

lemma occurrences_occurrence_text:
  assumes "plain_ref r" "fillers_ok items" "0x40 \<notin> set lead"
  shows "occurrences [(key, Some (lead @ occurrence_text r items))] r = length items"
  unfolding occurrences_def
  by (simp add: rmatchAll_skip[OF assms(3)] rmatchAll_occurrence_text[OF assms(1,2)]
      filter_map comp_def split_def)

text \<open>
  The protocol of a match holds no colon, so the address that loadDependency builds
  from an extracted reference reads back as that reference only: the loader's log holds
  the address of a reference as often as the extracted list holds the reference.
\<close>

lemma star_group:
  "rmatch (Atom p GreedyStar # r) s = Some (gs, t) \<Longrightarrow> gs \<noteq> [] \<and> list_all p (hd gs)"
proof (induction s arbitrary: gs t)
  case Nil
  then show ?case by auto
next
  case (Cons c cs)
  show ?case
  proof (cases "p c")
    case False
    then show ?thesis using Cons.prems by auto
  next
    case True
    show ?thesis
    proof (cases "rmatch (Atom p GreedyStar # r) cs")
      case None
      then show ?thesis using Cons.prems True by auto
    next
      case (Some m)
      obtain gs' t' where m: "m = (gs', t')" by (cases m)
      have "gs' \<noteq> [] \<and> list_all p (hd gs')" using Cons.IH[of gs' t'] Some m by simp
      then show ?thesis using Cons.prems True Some m by (cases gs') auto
    qed
  qed
qed

lemma plus_group:
  "rmatch (Atom p GreedyPlus # r) s = Some (gs, t) \<Longrightarrow> gs \<noteq> [] \<and> list_all p (hd gs)"
proof (cases s)
  case Nil
  assume "rmatch (Atom p GreedyPlus # r) s = Some (gs, t)"
  then show ?thesis using Nil by simp
next
  case (Cons c cs)
  assume a: "rmatch (Atom p GreedyPlus # r) s = Some (gs, t)"
  then obtain m where m: "rmatch (Atom p GreedyStar # r) cs = Some m" "push c m = (gs, t)" "p c"
    using Cons by (auto split: if_splits)
  obtain gs' t' where p: "m = (gs', t')" by (cases m)
  have "gs' \<noteq> [] \<and> list_all p (hd gs')" using star_group[of p r cs gs' t'] m(1) p by simp
  then show ?thesis using m(2,3) p by (cases gs') auto
qed

lemma ref_re_protocol:
  assumes "rmatch ref_re s = Some (gs, t)"
  shows "list_all not_colon (gs ! 2)"
proof -
  let ?L = "lit ''://'' @ [Atom res_char GreedyPlus]"
  have e: "ref_re = Atom (\<lambda>x. x = 0x40) Once # Atom (\<lambda>x. x = 0x21) Optional
      # Atom not_colon GreedyPlus # ?L"
    by (simp add: ref_re_def lit_def)
  obtain a u where s: "s = a # u" using assms ref_re_Nil by (cases s) auto
  obtain gs1 where g1: "gs = [a] # gs1"
      "rmatch (Atom (\<lambda>x. x = 0x21) Optional # Atom not_colon GreedyPlus # ?L) u = Some (gs1, t)"
    using assms unfolding e s by (auto split: if_splits)
  have "\<exists>g gs2 u'. gs1 = g # gs2 \<and> rmatch (Atom not_colon GreedyPlus # ?L) u' = Some (gs2, t)"
  proof (cases u)
    case Nil
    then show ?thesis using g1(2) by simp
  next
    case (Cons c cs)
    show ?thesis
    proof (cases "c = 0x21 \<and> rmatch (Atom not_colon GreedyPlus # ?L) cs \<noteq> None")
      case True
      then obtain m where m: "rmatch (Atom not_colon GreedyPlus # ?L) cs = Some m" by auto
      then have "taken c m = (gs1, t)" using g1(2) True unfolding Cons by simp
      then show ?thesis using m by (cases m) auto
    next
      case False
      then have "map_option skip (rmatch (Atom not_colon GreedyPlus # ?L) (c # cs)) = Some (gs1, t)"
        using g1(2) unfolding Cons by (auto split: if_splits option.splits)
      then obtain m where m: "rmatch (Atom not_colon GreedyPlus # ?L) (c # cs) = Some m"
          "skip m = (gs1, t)"
        by (auto simp del: rmatch.simps)
      obtain gs2 where "gs1 = [] # gs2" "m = (gs2, t)" using m(2) by (cases m) auto
      then show ?thesis using m(1) by blast
    qed
  qed
  then obtain g gs2 u' where g2: "gs1 = g # gs2"
      "rmatch (Atom not_colon GreedyPlus # ?L) u' = Some (gs2, t)"
    by blast
  have "gs2 \<noteq> [] \<and> list_all not_colon (hd gs2)" using plus_group[OF g2(2)] .
  then show ?thesis unfolding g1(1) g2(1) by (cases gs2) auto
qed

lemma rmatchAll_ref_protocol:
  "gs \<in> set (rmatchAll ref_re s) \<Longrightarrow> list_all not_colon (gs ! 2)"
proof (induction s rule: replace_induct[OF ref_consumes, case_names Nil Keep Replace])
  case Nil
  then show ?case by (simp add: ref_re_Nil)
next
  case (Keep c cs)
  then show ?case by (simp add: rmatchAll_consuming[OF ref_consumes])
next
  case (Replace c cs gs' t)
  then show ?case
    using ref_re_protocol[OF Replace(1)] rmatch_consuming[OF Replace(1) ref_consumes]
    by auto
qed

lemma extracted_protocol:
  "r \<in> set (extractResourceReferences secs) \<Longrightarrow> list_all not_colon (protocol r)"
proof -
  assume "r \<in> set (extractResourceReferences secs)"
  then obtain k sec where "(k, sec) \<in> set secs" "r \<in> set (extractFromText sec)"
    by (auto simp add: extractResourceReferences_def)
  then show ?thesis using rmatchAll_ref_protocol
    by (cases sec) (auto split: if_splits)
qed

lemma url_split:
  "list_all not_colon p \<Longrightarrow> list_all not_colon q \<Longrightarrow>
   p @ 0x3A # x = q @ 0x3A # y \<Longrightarrow> p = q \<and> x = y"
proof (induction p arbitrary: q)
  case Nil
  then show ?case by (cases q) (auto simp add: not_colon_def)
next
  case (Cons c p)
  then show ?case by (cases q) (auto simp add: not_colon_def)
qed

lemma resourceUrl_inj:
  assumes "list_all not_colon (protocol r)" and "list_all not_colon (protocol r')"
    and "resourceUrl r = resourceUrl r'"
  shows "r = r'"
proof -
  have "protocol r @ 0x3A # (js ''//'' @ resource r) = protocol r' @ 0x3A # (js ''//'' @ resource r')"
    using assms(3) by (simp add: resourceUrl_def js_def)
  then have "protocol r = protocol r' \<and> js ''//'' @ resource r = js ''//'' @ resource r'"
    by (rule url_split[OF assms(1,2)])
  then show ?thesis by simp
qed

lemma count_list_map_inj:
  "\<forall>y \<in> set xs. f y = f x \<longrightarrow> y = x \<Longrightarrow> count_list (map f xs) (f x) = count_list xs x"
  by (induction xs) auto

lemma count_loaded:
  assumes "list_all not_colon (protocol r)"
  shows "count_list (map resourceUrl (extractResourceReferences secs)) (resourceUrl r)
    = occurrences secs r"
proof -
  have "\<forall>y \<in> set (extractResourceReferences secs). resourceUrl y = resourceUrl r \<longrightarrow> y = r"
    using resourceUrl_inj[OF extracted_protocol assms] by blast
  then show ?thesis using count_list_map_inj[of _ resourceUrl r] count_extracted by simp
qed

text \<open>
  C10: references are never de-duplicated. If a reference occurs k times in the text
  of the scanned sections (k matches of the reference pattern with its protocol and
  resource), analyzeDependencies returns a bundle and the loader is called with the
  reference's address exactly k times (for a protocol without a colon, as the pattern
  yields; at least k times for any reference); when the reference resolves and its
  protocol is thought, execution or knowledge, the bucket of that protocol holds exactly
  k entries for it. A section that reads as k tokens \<^verbatim>\<open>@[!]protocol://resource\<close> of the
  reference, separated by text without \<open>@\<close>, has k occurrences.
\<close>

theorem analyzeDependencies_no_dedup:
  assumes "sections roleInfo = Some secs"
  shows "\<exists>b log. analyzeDependencies rm roleInfo = (Inr b, log) \<and>
    (\<forall>r. list_all not_colon (protocol r) \<longrightarrow> count_list log (resourceUrl r) = occurrences secs r) \<and>
    (\<forall>r. occurrences secs r \<le> count_list log (resourceUrl r)) \<and>
    (\<forall>r c. resolves rm r = Some c \<longrightarrow>
       (protocol r = js ''thought'' \<longrightarrow>
          count_list (thoughts b) \<lparr>dep_id = resource r, dep_content = c\<rparr> = occurrences secs r) \<and>
       (protocol r = js ''execution'' \<longrightarrow>
          count_list (executions b) \<lparr>dep_id = resource r, dep_content = c\<rparr> = occurrences secs r) \<and>
       (protocol r = js ''knowledge'' \<longrightarrow>
          count_list (knowledges b) \<lparr>dep_id = resource r, dep_content = c\<rparr> = occurrences secs r)) \<and>
    (\<forall>key r items lead. plain_ref r \<and> fillers_ok items \<and> 0x40 \<notin> set lead \<longrightarrow>
       occurrences [(key, Some (lead @ occurrence_text r items))] r = length items)"
  using assms count_map_ge[of "extractResourceReferences secs" _ resourceUrl]
  by (simp add: analyzeDependencies_bundle bundle_of_def count_bucket count_extracted
      occurrences_occurrence_text count_loaded)

text \<open>
  C10, an instance: \<^verbatim>\<open>@!thought://a and @thought://a\<close> holds the reference twice; the
  loader is called twice and the bucket of thoughts has two entries.
\<close>

theorem analyzeDependencies_no_dedup_witness:
  "sections (demo_role (js ''@!thought://a and @thought://a''))
     = Some [(''personality'', Some (js ''@!thought://a and @thought://a''))] \<and>
   js ''@!thought://a and @thought://a''
     = [] @ occurrence_text \<lparr>protocol = js ''thought'', resource = js ''a''\<rparr>
         [(True, js '' and ''), (False, [])] \<and>
   occurrences [(''personality'', Some (js ''@!thought://a and @thought://a''))]
     \<lparr>protocol = js ''thought'', resource = js ''a''\<rparr> = 2 \<and>
   analyzeDependencies demo_manager (demo_role (js ''@!thought://a and @thought://a''))
     = (Inr \<lparr>thoughts = [\<lparr>dep_id = js ''a'', dep_content = js ''Think.''\<rparr>,
                          \<lparr>dep_id = js ''a'', dep_content = js ''Think.''\<rparr>],
             executions = [], knowledges = []\<rparr>,
        [js ''@thought://a'', js ''@thought://a''])"
proof -
  let ?t = "js ''@!thought://a and @thought://a''"
  let ?r = "\<lparr>protocol = js ''thought'', resource = js ''a''\<rparr>"
  let ?d = "\<lparr>dep_id = js ''a'', dep_content = js ''Think.''\<rparr>"
  have h: "sections (demo_role ?t) = Some [(''personality'', Some ?t)]"
    by (simp add: demo_role_def)
  have t: "?t = [] @ occurrence_text ?r [(True, js '' and ''), (False, [])]"
    by (simp add: js_def)
  have pr: "plain_ref ?r"
    by (simp add: plain_ref_def js_def not_colon_def res_char_def ws_def)
  have fo: "fillers_ok [(True, js '' and ''), (False, [])]"
    by (simp add: js_def res_char_def ws_def)
  obtain b log where b: "analyzeDependencies demo_manager (demo_role ?t) = (Inr b, log)"
    and fam: "\<forall>key r items lead. plain_ref r \<and> fillers_ok items \<and> 0x40 \<notin> set lead \<longrightarrow>
       occurrences [(key, Some (lead @ occurrence_text r items))] r = length items"
    using analyzeDependencies_no_dedup[OF h, of demo_manager] by blast
  have "occurrences [(''personality'', Some ([] @ occurrence_text ?r [(True, js '' and ''), (False, [])]))] ?r
        = length [(True, js '' and ''), (False, [])]"
    using fam[rule_format, of ?r "[(True, js '' and ''), (False, [])]" "[]" "''personality''"] pr fo
    by simp
  then have o2: "occurrences [(''personality'', Some ?t)] ?r = 2"
    unfolding t[symmetric] by simp
  have "analyzeDependencies demo_manager (demo_role ?t)
     = (Inr (bundle_of demo_manager [?r, ?r]), map resourceUrl [?r, ?r])"
    using analyzeDependencies_bundle[OF h, of demo_manager] unfolding demo_refs_twice by simp
  moreover have "bundle_of demo_manager [?r, ?r]
      = \<lparr>thoughts = [?d, ?d], executions = [], knowledges = []\<rparr>"
    using js_protocols_distinct
    by (simp add: bundle_of_def bucket_def List.map_filter_simps demo_resolves)
  moreover have "map resourceUrl [?r, ?r] = [js ''@thought://a'', js ''@thought://a'']"
    by (simp add: resourceUrl_def js_def)
  ultimately have a: "analyzeDependencies demo_manager (demo_role ?t)
     = (Inr \<lparr>thoughts = [?d, ?d], executions = [], knowledges = []\<rparr>,
        [js ''@thought://a'', js ''@thought://a''])"
    by simp
  show ?thesis using h t o2 a by (intro conjI)
qed

section \<open>cleanContent: what is left of tokens and blank lines\<close>

subsection \<open>The kept pieces\<close>












subsection \<open>Where the reference pattern matches\<close>








lemma rsearch_None_iff: "rsearch r s = None \<longleftrightarrow> (\<forall>u v. s = u @ v \<longrightarrow> rmatch r v = None)"
proof (induction s)
  case Nil
  then show ?case by simp
next
  case (Cons c cs)
  have "rsearch r (c # cs) = None \<longleftrightarrow> rmatch r (c # cs) = None \<and> rsearch r cs = None"
    by (simp split: option.split)
  also have "\<dots> \<longleftrightarrow> (\<forall>u v. c # cs = u @ v \<longrightarrow> rmatch r v = None)"
    unfolding Cons by (auto simp add: Cons_eq_append_conv)
  finally show ?case .
qed



subsection \<open>Blank lines and outer white space\<close>
























subsection \<open>A run of line feeds inside the text\<close>











subsection \<open>The cleaned text\<close>








end
